theory Spec2Isabelle
  imports Complex_Main "HOL-Library.Word"
begin

unbundle bit_operations_syntax

section \<open>Enumerations of the FTL engine\<close>

text \<open>
  Modelled from the spec: the enumerations themselves are declared in a header that is not
  part of \<^verbatim>\<open>datastructure.c\<close>. Their enumerators are numbered from 0 in the order
  in which the spec (section 4.4) and the \<^verbatim>\<open>switch\<close> statements of the source list
  them; the last enumerator (\<^verbatim>\<open>QUERY_STATUS_MAX\<close>, \<^verbatim>\<open>MODE_MAX\<close>) is the number of
  valid values. A status is an unsigned C value, here a \<^typ>\<open>nat\<close>; the other
  enumerations travel through \<^verbatim>\<open>int\<close> results, here \<^typ>\<open>int\<close>.
\<close>

abbreviation (input) QUERY_UNKNOWN :: nat where "QUERY_UNKNOWN \<equiv> 0"
abbreviation (input) QUERY_GRAVITY :: nat where "QUERY_GRAVITY \<equiv> 1"
abbreviation (input) QUERY_FORWARDED :: nat where "QUERY_FORWARDED \<equiv> 2"
abbreviation (input) QUERY_CACHE :: nat where "QUERY_CACHE \<equiv> 3"
abbreviation (input) QUERY_REGEX :: nat where "QUERY_REGEX \<equiv> 4"
abbreviation (input) QUERY_DENYLIST :: nat where "QUERY_DENYLIST \<equiv> 5"
abbreviation (input) QUERY_EXTERNAL_BLOCKED_IP :: nat where "QUERY_EXTERNAL_BLOCKED_IP \<equiv> 6"
abbreviation (input) QUERY_EXTERNAL_BLOCKED_NULL :: nat where "QUERY_EXTERNAL_BLOCKED_NULL \<equiv> 7"
abbreviation (input) QUERY_EXTERNAL_BLOCKED_NXRA :: nat where "QUERY_EXTERNAL_BLOCKED_NXRA \<equiv> 8"
abbreviation (input) QUERY_GRAVITY_CNAME :: nat where "QUERY_GRAVITY_CNAME \<equiv> 9"
abbreviation (input) QUERY_REGEX_CNAME :: nat where "QUERY_REGEX_CNAME \<equiv> 10"
abbreviation (input) QUERY_DENYLIST_CNAME :: nat where "QUERY_DENYLIST_CNAME \<equiv> 11"
abbreviation (input) QUERY_RETRIED :: nat where "QUERY_RETRIED \<equiv> 12"
abbreviation (input) QUERY_RETRIED_DNSSEC :: nat where "QUERY_RETRIED_DNSSEC \<equiv> 13"
abbreviation (input) QUERY_IN_PROGRESS :: nat where "QUERY_IN_PROGRESS \<equiv> 14"
abbreviation (input) QUERY_DBBUSY :: nat where "QUERY_DBBUSY \<equiv> 15"
abbreviation (input) QUERY_SPECIAL_DOMAIN :: nat where "QUERY_SPECIAL_DOMAIN \<equiv> 16"
abbreviation (input) QUERY_CACHE_STALE :: nat where "QUERY_CACHE_STALE \<equiv> 17"
abbreviation (input) QUERY_STATUS_MAX :: nat where "QUERY_STATUS_MAX \<equiv> 18"

abbreviation (input) REFRESH_ALL :: int where "REFRESH_ALL \<equiv> 0"
abbreviation (input) REFRESH_IPV4_ONLY :: int where "REFRESH_IPV4_ONLY \<equiv> 1"
abbreviation (input) REFRESH_UNKNOWN :: int where "REFRESH_UNKNOWN \<equiv> 2"
abbreviation (input) REFRESH_NONE :: int where "REFRESH_NONE \<equiv> 3"

abbreviation (input) MODE_IP :: int where "MODE_IP \<equiv> 0"
abbreviation (input) MODE_NX :: int where "MODE_NX \<equiv> 1"
abbreviation (input) MODE_NULL :: int where "MODE_NULL \<equiv> 2"
abbreviation (input) MODE_IP_NODATA_AAAA :: int where "MODE_IP_NODATA_AAAA \<equiv> 3"
abbreviation (input) MODE_NODATA :: int where "MODE_NODATA \<equiv> 4"
abbreviation (input) MODE_MAX :: int where "MODE_MAX \<equiv> 5"

abbreviation (input) PTR_PIHOLE :: int where "PTR_PIHOLE \<equiv> 0"
abbreviation (input) PTR_HOSTNAME :: int where "PTR_HOSTNAME \<equiv> 1"
abbreviation (input) PTR_HOSTNAMEFQDN :: int where "PTR_HOSTNAMEFQDN \<equiv> 2"
abbreviation (input) PTR_NONE :: int where "PTR_NONE \<equiv> 3"

abbreviation (input) BUSY_BLOCK :: int where "BUSY_BLOCK \<equiv> 0"
abbreviation (input) BUSY_ALLOW :: int where "BUSY_ALLOW \<equiv> 1"
abbreviation (input) BUSY_REFUSE :: int where "BUSY_REFUSE \<equiv> 2"
abbreviation (input) BUSY_DROP :: int where "BUSY_DROP \<equiv> 3"

abbreviation (input) LISTEN_LOCAL :: int where "LISTEN_LOCAL \<equiv> 0"
abbreviation (input) LISTEN_ALL :: int where "LISTEN_ALL \<equiv> 1"
abbreviation (input) LISTEN_SINGLE :: int where "LISTEN_SINGLE \<equiv> 2"
abbreviation (input) LISTEN_BIND :: int where "LISTEN_BIND \<equiv> 3"
abbreviation (input) LISTEN_NONE :: int where "LISTEN_NONE \<equiv> 4"

abbreviation (input) TEMP_UNIT_C :: int where "TEMP_UNIT_C \<equiv> 0"
abbreviation (input) TEMP_UNIT_F :: int where "TEMP_UNIT_F \<equiv> 1"
abbreviation (input) TEMP_UNIT_K :: int where "TEMP_UNIT_K \<equiv> 2"

section \<open>Strings and the hash\<close>

text \<open>
  A C string is a \<^typ>\<open>string\<close> without the terminating NUL; \<^verbatim>\<open>strcmp(a, b) == 0\<close>
  is equality. \<^verbatim>\<open>tolower\<close> in the C locale maps \<^verbatim>\<open>A\<close>..\<^verbatim>\<open>Z\<close> to
  \<^verbatim>\<open>a\<close>..\<^verbatim>\<open>z\<close> and leaves every other byte alone, and \<^verbatim>\<open>strcasecmp\<close> compares the
  strings byte by byte after \<^verbatim>\<open>tolower\<close>.
\<close>

definition tolower :: "char \<Rightarrow> char" where
  "tolower c = (let n = (of_char c :: nat) in if 65 \<le> n \<and> n \<le> 90 then char_of (n + 32) else c)"

definition strtolower :: "string \<Rightarrow> string" where
  "strtolower str = map tolower str"

definition strcasecmp_eq :: "string \<Rightarrow> string \<Rightarrow> bool" where
  "strcasecmp_eq a b = (map tolower a = map tolower b)"

text \<open>
  \<^verbatim>\<open>hashStr\<close>: Jenkins' one-at-a-time hash on \<^verbatim>\<open>uint32_t\<close>. The byte is read through a
  plain \<^verbatim>\<open>char\<close>, taken as signed here (the bytes of a host name are below 128, where the
  two readings agree).
\<close>

definition char_to_u32 :: "char \<Rightarrow> 32 word" where
  "char_to_u32 c = (let n = (of_char c :: nat) in if n < 128 then of_nat n else of_nat n - 256)"

definition hash_step :: "32 word \<Rightarrow> char \<Rightarrow> 32 word" where
  "hash_step hash c =
     (let h1 = hash + char_to_u32 c;
          h2 = h1 + push_bit 10 h1;
          h3 = h2 XOR drop_bit 6 h2
      in h3)"

definition hashStr :: "string \<Rightarrow> 32 word" where
  "hashStr s =
     (let hash = foldl hash_step 0 s;
          h1 = hash + push_bit 3 hash;
          h2 = h1 XOR drop_bit 11 h1;
          h3 = h2 + push_bit 15 h2
      in h3)"

section \<open>Status classification\<close>

definition is_blocked :: "nat \<Rightarrow> bool" where
  "is_blocked status =
     (if status = QUERY_UNKNOWN \<or> status = QUERY_FORWARDED \<or> status = QUERY_CACHE
         \<or> status = QUERY_RETRIED \<or> status = QUERY_RETRIED_DNSSEC
         \<or> status = QUERY_IN_PROGRESS \<or> status = QUERY_CACHE_STALE
         \<or> status = QUERY_STATUS_MAX then False
      else if status = QUERY_GRAVITY \<or> status = QUERY_REGEX \<or> status = QUERY_DENYLIST
         \<or> status = QUERY_EXTERNAL_BLOCKED_IP \<or> status = QUERY_EXTERNAL_BLOCKED_NULL
         \<or> status = QUERY_EXTERNAL_BLOCKED_NXRA \<or> status = QUERY_GRAVITY_CNAME
         \<or> status = QUERY_REGEX_CNAME \<or> status = QUERY_DENYLIST_CNAME
         \<or> status = QUERY_DBBUSY \<or> status = QUERY_SPECIAL_DOMAIN then True
      else False)"

definition is_cached :: "nat \<Rightarrow> bool" where
  "is_cached status =
     (if status = QUERY_CACHE \<or> status = QUERY_CACHE_STALE then True
      else False)"

section \<open>Enumeration to string and back\<close>

text \<open>
  The \<^verbatim>\<open>_str\<close> functions that end in \<^verbatim>\<open>return NULL\<close> give a \<^typ>\<open>string option\<close>;
  those with a \<^verbatim>\<open>default\<close> branch give a string. The \<^verbatim>\<open>_val\<close> functions return the
  enumerator or \<open>-1\<close>.
\<close>

definition get_refresh_hostnames_str :: "int \<Rightarrow> string" where
  "get_refresh_hostnames_str refresh =
     (if refresh = REFRESH_ALL then ''ALL''
      else if refresh = REFRESH_IPV4_ONLY then ''IPV4_ONLY''
      else if refresh = REFRESH_UNKNOWN then ''UNKNOWN''
      else if refresh = REFRESH_NONE then ''NONE''
      else ''N/A'')"

definition get_refresh_hostnames_val :: "string \<Rightarrow> int" where
  "get_refresh_hostnames_val refresh_hostnames =
     (if strcasecmp_eq refresh_hostnames ''ALL'' then REFRESH_ALL
      else if strcasecmp_eq refresh_hostnames ''IPV4_ONLY'' then REFRESH_IPV4_ONLY
      else if strcasecmp_eq refresh_hostnames ''UNKNOWN'' then REFRESH_UNKNOWN
      else if strcasecmp_eq refresh_hostnames ''NONE'' then REFRESH_NONE
      else -1)"

definition get_blocking_mode_str :: "int \<Rightarrow> string" where
  "get_blocking_mode_str mode =
     (if mode = MODE_IP then ''IP''
      else if mode = MODE_NX then ''NX''
      else if mode = MODE_NULL then ''NULL''
      else if mode = MODE_IP_NODATA_AAAA then ''IP_NODATA_AAAA''
      else if mode = MODE_NODATA then ''NODATA''
      else ''N/A'')"

definition get_blocking_mode_val :: "string \<Rightarrow> int" where
  "get_blocking_mode_val blocking_mode =
     (if strcasecmp_eq blocking_mode ''IP'' then MODE_IP
      else if strcasecmp_eq blocking_mode ''NX'' then MODE_NX
      else if strcasecmp_eq blocking_mode ''NULL'' then MODE_NULL
      else if strcasecmp_eq blocking_mode ''IP_NODATA_AAAA'' then MODE_IP_NODATA_AAAA
      else if strcasecmp_eq blocking_mode ''NODATA'' then MODE_NODATA
      else -1)"

definition get_ptr_type_str :: "int \<Rightarrow> string option" where
  "get_ptr_type_str piholePTR =
     (if piholePTR = PTR_PIHOLE then Some ''PI.HOLE''
      else if piholePTR = PTR_HOSTNAME then Some ''HOSTNAME''
      else if piholePTR = PTR_HOSTNAMEFQDN then Some ''HOSTNAMEFQDN''
      else if piholePTR = PTR_NONE then Some ''NONE''
      else None)"

definition get_ptr_type_val :: "string \<Rightarrow> int" where
  "get_ptr_type_val piholePTR =
     (if strcasecmp_eq piholePTR ''pi.hole'' then PTR_PIHOLE
      else if strcasecmp_eq piholePTR ''hostname'' then PTR_HOSTNAME
      else if strcasecmp_eq piholePTR ''hostnamefqdn'' then PTR_HOSTNAMEFQDN
      else if strcasecmp_eq piholePTR ''none'' \<or> strcasecmp_eq piholePTR ''false'' then PTR_NONE
      else -1)"

definition get_busy_reply_str :: "int \<Rightarrow> string option" where
  "get_busy_reply_str replyWhenBusy =
     (if replyWhenBusy = BUSY_BLOCK then Some ''BLOCK''
      else if replyWhenBusy = BUSY_ALLOW then Some ''ALLOW''
      else if replyWhenBusy = BUSY_REFUSE then Some ''REFUSE''
      else if replyWhenBusy = BUSY_DROP then Some ''DROP''
      else None)"

definition get_busy_reply_val :: "string \<Rightarrow> int" where
  "get_busy_reply_val replyWhenBusy =
     (if strcasecmp_eq replyWhenBusy ''BLOCK'' then BUSY_BLOCK
      else if strcasecmp_eq replyWhenBusy ''ALLOW'' then BUSY_ALLOW
      else if strcasecmp_eq replyWhenBusy ''REFUSE'' then BUSY_REFUSE
      else if strcasecmp_eq replyWhenBusy ''DROP'' then BUSY_DROP
      else -1)"

definition get_listeningMode_str :: "int \<Rightarrow> string option" where
  "get_listeningMode_str listeningMode =
     (if listeningMode = LISTEN_LOCAL then Some ''LOCAL''
      else if listeningMode = LISTEN_ALL then Some ''ALL''
      else if listeningMode = LISTEN_SINGLE then Some ''SINGLE''
      else if listeningMode = LISTEN_BIND then Some ''BIND''
      else if listeningMode = LISTEN_NONE then Some ''NONE''
      else None)"

definition get_listeningMode_val :: "string \<Rightarrow> int" where
  "get_listeningMode_val listeningMode =
     (if strcasecmp_eq listeningMode ''LOCAL'' then LISTEN_LOCAL
      else if strcasecmp_eq listeningMode ''ALL'' then LISTEN_ALL
      else if strcasecmp_eq listeningMode ''SINGLE'' then LISTEN_SINGLE
      else if strcasecmp_eq listeningMode ''BIND'' then LISTEN_BIND
      else if strcasecmp_eq listeningMode ''NONE'' then LISTEN_NONE
      else -1)"

definition get_temp_unit_str :: "int \<Rightarrow> string option" where
  "get_temp_unit_str temp_unit =
     (if temp_unit = TEMP_UNIT_C then Some ''C''
      else if temp_unit = TEMP_UNIT_F then Some ''F''
      else if temp_unit = TEMP_UNIT_K then Some ''K''
      else None)"

definition get_temp_unit_val :: "string \<Rightarrow> int" where
  "get_temp_unit_val temp_unit =
     (if strcasecmp_eq temp_unit ''C'' then TEMP_UNIT_C
      else if strcasecmp_eq temp_unit ''F'' then TEMP_UNIT_F
      else if strcasecmp_eq temp_unit ''K'' then TEMP_UNIT_K
      else -1)"

section \<open>The record arena and the aggregate counters\<close>

text \<open>
  Modelled from the spec: the string pool (\<^verbatim>\<open>addstr\<close>, \<^verbatim>\<open>getstr\<close>) is an external
  collaborator with the contract \<open>resolve (intern s) = s\<close>, append-only. A field holding a
  pool offset (\<^verbatim>\<open>domainpos\<close>, \<^verbatim>\<open>ippos\<close>, \<^verbatim>\<open>namepos\<close>, ...) is modelled by the string
  the offset resolves to; offset 0 is the empty string.

  Fields of type \<^verbatim>\<open>double\<close> are only assigned by the functions below and are kept as
  \<^typ>\<open>real\<close>. Counters of C type \<^verbatim>\<open>int\<close> are \<^typ>\<open>int\<close> (signed overflow is undefined
  in C and is not modelled); the per-kind counts, which only grow, are \<^typ>\<open>nat\<close>.
\<close>

text \<open>
  Modelled from the spec: the live sentinel of the liveness tag ("a fixed live-sentinel
  value") is a macro of a header outside the source. The source tests a dead slot with
  \<^verbatim>\<open>magic == 0x00\<close>, so the sentinel is a non-zero byte; the proofs below use
  nothing else about its value.
\<close>

definition MAGICBYTE :: "8 word" where
  "MAGICBYTE = 0x57"

abbreviation (input) UNKNOWN_BLOCKED :: int where "UNKNOWN_BLOCKED \<equiv> 0"

record domainsData =
  d_magic :: "8 word"
  d_count :: int
  d_blockedcount :: int
  d_domainpos :: string
  d_domainhash :: "32 word"
  d_lastQuery :: real

record clientsData =
  c_magic :: "8 word"
  c_count :: int
  c_blockedcount :: int
  c_ippos :: string
  c_namepos :: string
  c_ifacepos :: string
  c_groupspos :: string
  c_flags_new :: bool
  c_flags_found_group :: bool
  c_flags_aliasclient :: bool
  c_aliasclient_id :: int
  c_lastQuery :: real
  c_numQueriesARP :: int
  c_reread_groups :: nat
  c_firstSeen :: int
  c_hwlen :: int
  c_hwaddr :: "8 word list"
  c_overTime :: "int list"
  c_id :: int

record upstreamsData =
  u_magic :: "8 word"
  u_ippos :: string
  u_namepos :: string
  u_port :: "16 word"
  u_failed :: int
  u_flags_new :: bool
  u_rtime :: real
  u_rtuncertainty :: real
  u_responses :: nat
  u_lastQuery :: real

record DNSCacheData =
  dc_magic :: "8 word"
  dc_blocking_status :: int
  dc_domainID :: int
  dc_clientID :: int
  dc_query_type :: nat
  dc_force_reply :: nat
  dc_list_id :: int

record queriesData =
  q_id :: int
  q_timestamp :: real
  q_domainID :: int
  q_CNAME_domainID :: int
  q_clientID :: int
  q_status :: nat
  q_privacylevel :: int

record overTimeData =
  ot_total :: int
  ot_blocked :: int
  ot_cached :: int
  ot_forwarded :: int

datatype log_msg =
    Warn_alias_client_direct string string
  | Err_memory_findUpstreamID
  | Err_memory_findDomainID
  | Err_memory_findClientID
  | Err_memory_findCacheID

text \<open>
  The shared state: \<^verbatim>\<open>counters\<close>, the per-kind arrays, the \<^verbatim>\<open>overTime\<close> array, the
  log and the event flag raised by \<^verbatim>\<open>set_event(RESOLVE_NEW_HOSTNAMES)\<close>. The length of
  an array is the number of slots the shared memory holds for it; \<^verbatim>\<open>OVERTIME_SLOTS\<close> is
  the length of \<^verbatim>\<open>overTime\<close>, and \<^verbatim>\<open>counters->status\<close> has \<^verbatim>\<open>QUERY_STATUS_MAX\<close>
  entries. Debug logging (\<^verbatim>\<open>log_debug\<close>) is left out.
\<close>

record ftl_state =
  counters_domains :: nat
  counters_clients :: nat
  counters_upstreams :: nat
  counters_dns_cache_size :: nat
  counters_status :: "int list"
  domains :: "domainsData list"
  clients :: "clientsData list"
  upstreams :: "upstreamsData list"
  dns_cache :: "DNSCacheData list"
  queries :: "queriesData list"
  overTime :: "overTimeData list"
  log :: "log_msg list"
  event_RESOLVE_NEW_HOSTNAMES :: bool

definition OVERTIME_SLOTS :: "ftl_state \<Rightarrow> nat" where
  "OVERTIME_SLOTS s = length (overTime s)"

text \<open>
  Modelled from the spec: the accessors \<^verbatim>\<open>getDomain\<close>, \<^verbatim>\<open>getClient\<close>,
  \<^verbatim>\<open>getUpstream\<close> and \<^verbatim>\<open>getDNSCache\<close> live in the shared-memory module, outside the
  source. By section 4.1 they "tolerate an out-of-range or not-yet-allocated ID by
  returning not found"; with \<open>checkMagic\<close> set they also return not found for a slot
  whose liveness tag is not the live sentinel.
\<close>

definition getDomain :: "ftl_state \<Rightarrow> int \<Rightarrow> bool \<Rightarrow> domainsData option" where
  "getDomain s domainID checkMagic =
     (if domainID < 0 \<or> int (length (domains s)) \<le> domainID then None
      else let domain = domains s ! nat domainID
           in if checkMagic \<and> d_magic domain \<noteq> MAGICBYTE then None else Some domain)"

definition getClient :: "ftl_state \<Rightarrow> int \<Rightarrow> bool \<Rightarrow> clientsData option" where
  "getClient s clientID checkMagic =
     (if clientID < 0 \<or> int (length (clients s)) \<le> clientID then None
      else let client = clients s ! nat clientID
           in if checkMagic \<and> c_magic client \<noteq> MAGICBYTE then None else Some client)"

definition getUpstream :: "ftl_state \<Rightarrow> int \<Rightarrow> bool \<Rightarrow> upstreamsData option" where
  "getUpstream s upstreamID checkMagic =
     (if upstreamID < 0 \<or> int (length (upstreams s)) \<le> upstreamID then None
      else let upstream = upstreams s ! nat upstreamID
           in if checkMagic \<and> u_magic upstream \<noteq> MAGICBYTE then None else Some upstream)"

definition getDNSCache :: "ftl_state \<Rightarrow> int \<Rightarrow> bool \<Rightarrow> DNSCacheData option" where
  "getDNSCache s cacheID checkMagic =
     (if cacheID < 0 \<or> int (length (dns_cache s)) \<le> cacheID then None
      else let cache = dns_cache s ! nat cacheID
           in if checkMagic \<and> dc_magic cache \<noteq> MAGICBYTE then None else Some cache)"

section \<open>Identity resolver\<close>

text \<open>
  A loop \<^verbatim>\<open>for(id = 0; id < n; id++) { ... if(hit) return id; }\<close> is
  \<^term>\<open>find hit [0..<n]\<close>: the first index of the forward scan that hits.
\<close>

subsection \<open>Upstream servers\<close>

definition upstream_hit :: "ftl_state \<Rightarrow> string \<Rightarrow> 16 word \<Rightarrow> nat \<Rightarrow> bool" where
  "upstream_hit s upstreamString port upstreamID =
     (case getUpstream s (int upstreamID) False of
        None \<Rightarrow> False
      | Some upstream \<Rightarrow> u_ippos upstream = upstreamString \<and> u_port upstream = port)"

definition findUpstreamID :: "string \<Rightarrow> 16 word \<Rightarrow> ftl_state \<Rightarrow> int \<times> ftl_state" where
  "findUpstreamID upstreamString port s =
     (case find (upstream_hit s upstreamString port) [0..<counters_upstreams s] of
        Some upstreamID \<Rightarrow> (int upstreamID, s)
      | None \<Rightarrow>
          let upstreamID = counters_upstreams s
          in (case getUpstream s (int upstreamID) False of
                None \<Rightarrow> (-1, s\<lparr>log := log s @ [Err_memory_findUpstreamID]\<rparr>)
              | Some upstream \<Rightarrow>
                  (int upstreamID,
                   s\<lparr>upstreams := (upstreams s)[upstreamID :=
                        upstream\<lparr>u_magic := MAGICBYTE, u_ippos := upstreamString, u_failed := 0,
                                 u_flags_new := True, u_namepos := [], u_rtime := 0,
                                 u_rtuncertainty := 0, u_responses := 0, u_lastQuery := 0,
                                 u_port := port\<rparr>],
                      event_RESOLVE_NEW_HOSTNAMES := True,
                      counters_upstreams := counters_upstreams s + 1\<rparr>)))"

subsection \<open>Domains\<close>

definition domain_is_free :: "ftl_state \<Rightarrow> nat \<Rightarrow> bool" where
  "domain_is_free s domainID =
     (case getDomain s (int domainID) False of
        None \<Rightarrow> False
      | Some domain \<Rightarrow> d_magic domain = 0x00)"

definition get_next_free_domainID :: "ftl_state \<Rightarrow> nat" where
  "get_next_free_domainID s =
     (case find (domain_is_free s) [0..<counters_domains s] of
        Some domainID \<Rightarrow> domainID
      | None \<Rightarrow> counters_domains s)"

definition domain_hit :: "ftl_state \<Rightarrow> 32 word \<Rightarrow> string \<Rightarrow> nat \<Rightarrow> bool" where
  "domain_hit s domainHash domainString domainID =
     (case getDomain s (int domainID) False of
        None \<Rightarrow> False
      | Some domain \<Rightarrow>
          if d_domainhash domain \<noteq> domainHash then False
          else d_domainpos domain = domainString)"

definition domain_scan :: "ftl_state \<Rightarrow> string \<Rightarrow> nat option" where
  "domain_scan s domainString =
     (let domainHash = hashStr domainString
      in find (domain_hit s domainHash domainString) [0..<counters_domains s])"

text \<open>\<open>now\<close> is the value \<^verbatim>\<open>double_time()\<close> returns during the call.\<close>

definition findDomainID :: "real \<Rightarrow> string \<Rightarrow> bool \<Rightarrow> ftl_state \<Rightarrow> int \<times> ftl_state" where
  "findDomainID now domainString count s =
     (case domain_scan s domainString of
        Some domainID \<Rightarrow>
          (int domainID,
           if count
           then s\<lparr>domains := (domains s)[domainID :=
                    (domains s ! domainID)\<lparr>d_count := d_count (domains s ! domainID) + 1,
                                           d_lastQuery := now\<rparr>]\<rparr>
           else s)
      | None \<Rightarrow>
          let domainID = get_next_free_domainID s
          in (case getDomain s (int domainID) False of
                None \<Rightarrow> (-1, s\<lparr>log := log s @ [Err_memory_findDomainID]\<rparr>)
              | Some domain \<Rightarrow>
                  (int domainID,
                   s\<lparr>domains := (domains s)[domainID :=
                        domain\<lparr>d_magic := MAGICBYTE,
                               d_count := (if count then 1 else 0),
                               d_blockedcount := 0,
                               d_domainpos := domainString,
                               d_domainhash := hashStr domainString,
                               d_lastQuery := 0\<rparr>],
                      counters_domains := counters_domains s + 1\<rparr>)))"

subsection \<open>Aggregate counters of a client\<close>

text \<open>
  \<^verbatim>\<open>change_clientcount\<close> receives a pointer to a client record; here the index of the
  slot. A pointer outside the array, and the \<^verbatim>\<open>NULL\<close> the accessor returns for a linked
  alias-client that is not live (the source dereferences it unchecked), give \<open>None\<close>.
\<close>

definition change_clientcount ::
  "nat \<Rightarrow> int \<Rightarrow> int \<Rightarrow> int \<Rightarrow> int \<Rightarrow> ftl_state \<Rightarrow> ftl_state option" where
  "change_clientcount clientID total' blocked overTimeIdx overTimeMod s =
     (if length (clients s) \<le> clientID then None
      else
        let client = clients s ! clientID;
            client = client\<lparr>c_count := c_count client + total'\<rparr>;
            client = client\<lparr>c_blockedcount := c_blockedcount client + blocked\<rparr>;
            in_range = (overTimeIdx > -1 \<and> overTimeIdx < int (OVERTIME_SLOTS s));
            idx = nat overTimeIdx;
            overTime1 = (if in_range
                         then (overTime s)[idx := (overTime s ! idx)
                                \<lparr>ot_total := ot_total (overTime s ! idx) + overTimeMod\<rparr>]
                         else overTime s);
            client = (if in_range
                      then client\<lparr>c_overTime := (c_overTime client)
                                    [idx := c_overTime client ! idx + overTimeMod]\<rparr>
                      else client);
            s1 = s\<lparr>clients := (clients s)[clientID := client], overTime := overTime1\<rparr>
        in if c_flags_aliasclient client
           then Some (s1\<lparr>log := log s1 @
                        [Warn_alias_client_direct (c_namepos client) (c_ippos client)]\<rparr>)
           else if c_aliasclient_id client > -1
           then (case getClient s1 (c_aliasclient_id client) True of
                   None \<Rightarrow> None
                 | Some aliasclient \<Rightarrow>
                     let aliasclient = aliasclient\<lparr>c_count := c_count aliasclient + total'\<rparr>;
                         aliasclient = aliasclient
                           \<lparr>c_blockedcount := c_blockedcount aliasclient + blocked\<rparr>;
                         aliasclient = (if in_range
                            then aliasclient\<lparr>c_overTime := (c_overTime aliasclient)
                                   [idx := c_overTime aliasclient ! idx + overTimeMod]\<rparr>
                            else aliasclient)
                     in Some (s1\<lparr>clients := (clients s1)
                                [nat (c_aliasclient_id client) := aliasclient]\<rparr>))
           else Some s1)"

subsection \<open>Clients\<close>

definition client_is_free :: "ftl_state \<Rightarrow> nat \<Rightarrow> bool" where
  "client_is_free s clientID =
     (case getClient s (int clientID) False of
        None \<Rightarrow> False
      | Some client \<Rightarrow> c_magic client = 0x00)"

definition get_next_free_clientID :: "ftl_state \<Rightarrow> nat" where
  "get_next_free_clientID s =
     (case find (client_is_free s) [0..<counters_clients s] of
        Some clientID \<Rightarrow> clientID
      | None \<Rightarrow> counters_clients s)"

text \<open>
  \<^verbatim>\<open>getstr(client->ippos)[0]\<close> and \<^verbatim>\<open>clientIP[0]\<close>: the first byte of a C string,
  the terminating NUL when the string is empty.
\<close>

definition first_char :: "string \<Rightarrow> char" where
  "first_char str = (case str of [] \<Rightarrow> CHR 0x00 | c # _ \<Rightarrow> c)"

definition client_hit :: "ftl_state \<Rightarrow> string \<Rightarrow> nat \<Rightarrow> bool" where
  "client_hit s clientIP clientID =
     (case getClient s (int clientID) True of
        None \<Rightarrow> False
      | Some client \<Rightarrow>
          if first_char (c_ippos client) \<noteq> first_char clientIP then False
          else c_ippos client = clientIP)"

definition client_scan :: "ftl_state \<Rightarrow> string \<Rightarrow> nat option" where
  "client_scan s clientIP = find (client_hit s clientIP) [0..<counters_clients s]"

text \<open>
  \<open>now\<close> is the value of \<^verbatim>\<open>time(NULL)\<close>. The result is \<open>None\<close> when the call to
  \<^verbatim>\<open>change_clientcount\<close> dereferences \<^verbatim>\<open>NULL\<close>. The calls into the external
  collaborators at the end of the function (\<^verbatim>\<open>reload_per_client_regex\<close>,
  \<^verbatim>\<open>reset_aliasclient\<close>: the regex tables and the alias rule engine of section 6 of the
  spec) are not part of the model.
\<close>

definition findClientID ::
  "int \<Rightarrow> string \<Rightarrow> bool \<Rightarrow> bool \<Rightarrow> ftl_state \<Rightarrow> (int \<times> ftl_state) option" where
  "findClientID now clientIP count aliasclient s =
     (case client_scan s clientIP of
        Some clientID \<Rightarrow>
          if count \<and> \<not> aliasclient
          then (case change_clientcount clientID 1 0 (-1) 0 s of
                  None \<Rightarrow> None
                | Some s1 \<Rightarrow> Some (int clientID, s1))
          else Some (int clientID, s)
      | None \<Rightarrow>
          if \<not> count \<and> \<not> aliasclient then Some (-1, s)
          else
            let clientID = get_next_free_clientID s
            in (case getClient s (int clientID) False of
                  None \<Rightarrow> Some (-1, s\<lparr>log := log s @ [Err_memory_findClientID]\<rparr>)
                | Some client \<Rightarrow>
                    let cnt = (if count \<and> \<not> aliasclient then 1 else 0)
                    in Some (int clientID,
                         s\<lparr>clients := (clients s)[clientID :=
                              client\<lparr>c_magic := MAGICBYTE,
                                     c_count := cnt,
                                     c_blockedcount := 0,
                                     c_ippos := clientIP,
                                     c_flags_new := True,
                                     c_namepos := [],
                                     c_lastQuery := 0,
                                     c_numQueriesARP := cnt,
                                     c_flags_found_group := False,
                                     c_groupspos := [],
                                     c_reread_groups := 0,
                                     c_firstSeen := now,
                                     c_ifacepos := [],
                                     c_hwlen := -1,
                                     c_hwaddr := replicate (length (c_hwaddr client)) 0,
                                     c_flags_aliasclient := aliasclient,
                                     c_aliasclient_id := -1,
                                     c_overTime := replicate (OVERTIME_SLOTS s) 0,
                                     c_id := int clientID\<rparr>],
                            event_RESOLVE_NEW_HOSTNAMES := True,
                            counters_clients := counters_clients s + 1\<rparr>)))"

subsection \<open>Cache entries\<close>

definition cache_is_free :: "ftl_state \<Rightarrow> nat \<Rightarrow> bool" where
  "cache_is_free s cacheID =
     (case getDNSCache s (int cacheID) False of
        None \<Rightarrow> False
      | Some cache \<Rightarrow> dc_magic cache = 0x00)"

definition get_next_free_cacheID :: "ftl_state \<Rightarrow> nat" where
  "get_next_free_cacheID s =
     (case find (cache_is_free s) [0..<counters_dns_cache_size s] of
        Some cacheID \<Rightarrow> cacheID
      | None \<Rightarrow> counters_dns_cache_size s)"

definition cache_hit :: "ftl_state \<Rightarrow> int \<Rightarrow> int \<Rightarrow> nat \<Rightarrow> nat \<Rightarrow> bool" where
  "cache_hit s domainID clientID query_type cacheID =
     (case getDNSCache s (int cacheID) True of
        None \<Rightarrow> False
      | Some cache \<Rightarrow>
          dc_domainID cache = domainID \<and> dc_clientID cache = clientID
          \<and> dc_query_type cache = query_type)"

definition findCacheID ::
  "int \<Rightarrow> int \<Rightarrow> nat \<Rightarrow> bool \<Rightarrow> ftl_state \<Rightarrow> int \<times> ftl_state" where
  "findCacheID domainID clientID query_type create_new s =
     (case find (cache_hit s domainID clientID query_type) [0..<counters_dns_cache_size s] of
        Some cacheID \<Rightarrow> (int cacheID, s)
      | None \<Rightarrow>
          if \<not> create_new then (-1, s)
          else
            let cacheID = get_next_free_cacheID s
            in (case getDNSCache s (int cacheID) False of
                  None \<Rightarrow> (-1, s\<lparr>log := log s @ [Err_memory_findCacheID]\<rparr>)
                | Some cache \<Rightarrow>
                    (int cacheID,
                     s\<lparr>dns_cache := (dns_cache s)[cacheID :=
                          cache\<lparr>dc_magic := MAGICBYTE,
                                    dc_blocking_status := UNKNOWN_BLOCKED,
                                    dc_domainID := domainID,
                                    dc_clientID := clientID,
                                    dc_query_type := query_type,
                                    dc_force_reply := 0,
                                    dc_list_id := -1\<rparr>],
                        counters_dns_cache_size := counters_dns_cache_size s + 1\<rparr>)))"

section \<open>Privacy projection\<close>

text \<open>
  The privacy thresholds and the placeholders are macros of headers outside the source;
  the accessors take them as parameters. A \<^verbatim>\<open>NULL\<close> query is \<open>None\<close>.
\<close>

record privacy_macros =
  PRIVACY_HIDE_DOMAINS :: int
  PRIVACY_HIDE_DOMAINS_CLIENTS :: int
  HIDDEN_DOMAIN :: string
  HIDDEN_CLIENT :: string

definition getDomainString :: "privacy_macros \<Rightarrow> ftl_state \<Rightarrow> queriesData option \<Rightarrow> string" where
  "getDomainString m s query =
     (case query of
        None \<Rightarrow> []
      | Some q \<Rightarrow>
          if q_domainID q < 0 then []
          else if q_privacylevel q < PRIVACY_HIDE_DOMAINS m
          then (case getDomain s (q_domainID q) True of
                  None \<Rightarrow> []
                | Some domain \<Rightarrow> d_domainpos domain)
          else HIDDEN_DOMAIN m)"

definition getCNAMEDomainString ::
  "privacy_macros \<Rightarrow> ftl_state \<Rightarrow> queriesData option \<Rightarrow> string" where
  "getCNAMEDomainString m s query =
     (case query of
        None \<Rightarrow> []
      | Some q \<Rightarrow>
          if q_CNAME_domainID q < 0 then []
          else if q_privacylevel q < PRIVACY_HIDE_DOMAINS m
          then (case getDomain s (q_CNAME_domainID q) True of
                  None \<Rightarrow> []
                | Some domain \<Rightarrow> d_domainpos domain)
          else HIDDEN_DOMAIN m)"

definition getClientIPString ::
  "privacy_macros \<Rightarrow> ftl_state \<Rightarrow> queriesData option \<Rightarrow> string" where
  "getClientIPString m s query =
     (case query of
        None \<Rightarrow> []
      | Some q \<Rightarrow>
          if q_clientID q < 0 then []
          else if q_privacylevel q < PRIVACY_HIDE_DOMAINS_CLIENTS m
          then (case getClient s (q_clientID q) True of
                  None \<Rightarrow> []
                | Some client \<Rightarrow> c_ippos client)
          else HIDDEN_CLIENT m)"

definition getClientNameString ::
  "privacy_macros \<Rightarrow> ftl_state \<Rightarrow> queriesData option \<Rightarrow> string" where
  "getClientNameString m s query =
     (case query of
        None \<Rightarrow> []
      | Some q \<Rightarrow>
          if q_clientID q < 0 then []
          else if q_privacylevel q < PRIVACY_HIDE_DOMAINS_CLIENTS m
          then (case getClient s (q_clientID q) True of
                  None \<Rightarrow> []
                | Some client \<Rightarrow> c_namepos client)
          else HIDDEN_CLIENT m)"

section \<open>Query status state machine\<close>

text \<open>
  \<^verbatim>\<open>_query_set_status\<close> receives a pointer to a query; here the index of the query in
  the query array. \<^verbatim>\<open>getOverTimeID\<close> is the external time-bucket indexing of section 6
  of the spec, a parameter. An index outside \<^verbatim>\<open>counters->status\<close> or \<^verbatim>\<open>overTime\<close>,
  and a pointer outside the query array, are undefined behaviour in C: the result is
  \<open>None\<close>. The debug block at the head of the function only logs.
\<close>

definition query_set_status ::
  "(real \<Rightarrow> nat) \<Rightarrow> nat \<Rightarrow> nat \<Rightarrow> bool \<Rightarrow> ftl_state \<Rightarrow> ftl_state option" where
  "query_set_status getOverTimeID queryID new_status init s =
     (if length (queries s) \<le> queryID then None
      else if new_status \<ge> QUERY_STATUS_MAX then Some s
      else
        let query = queries s ! queryID;
            old_status = q_status query
        in if old_status = new_status \<and> \<not> init then Some s
           else
             let timeidx = getOverTimeID (q_timestamp query)
             in if (\<not> init \<and> length (counters_status s) \<le> old_status)
                   \<or> length (counters_status s) \<le> new_status
                   \<or> length (overTime s) \<le> timeidx
                then None
                else
                  let status1 = (if \<not> init
                                 then (counters_status s)
                                        [old_status := counters_status s ! old_status - 1]
                                 else counters_status s);
                      status2 = status1[new_status := status1 ! new_status + 1];
                      ot = overTime s ! timeidx;
                      ot = (if is_blocked old_status \<and> \<not> init
                            then ot\<lparr>ot_blocked := ot_blocked ot - 1\<rparr> else ot);
                      ot = (if is_blocked new_status
                            then ot\<lparr>ot_blocked := ot_blocked ot + 1\<rparr> else ot);
                      ot = (if (old_status = QUERY_CACHE \<or> old_status = QUERY_CACHE_STALE)
                               \<and> \<not> init
                            then ot\<lparr>ot_cached := ot_cached ot - 1\<rparr> else ot);
                      ot = (if new_status = QUERY_CACHE \<or> new_status = QUERY_CACHE_STALE
                            then ot\<lparr>ot_cached := ot_cached ot + 1\<rparr> else ot);
                      ot = (if old_status = QUERY_FORWARDED \<and> \<not> init
                            then ot\<lparr>ot_forwarded := ot_forwarded ot - 1\<rparr> else ot);
                      ot = (if new_status = QUERY_FORWARDED
                            then ot\<lparr>ot_forwarded := ot_forwarded ot + 1\<rparr> else ot)
                  in Some (s\<lparr>counters_status := status2,
                              overTime := (overTime s)[timeidx := ot],
                              queries := (queries s)
                                [queryID := query\<lparr>q_status := new_status\<rparr>]\<rparr>))"

section \<open>Sequences of calls\<close>

text \<open>
  A call of \<^verbatim>\<open>_query_set_status\<close> is the triple of the query, the new status and the
  \<^verbatim>\<open>init\<close> flag. A run stops with \<open>None\<close> at the first call that is undefined.
\<close>

type_synonym status_call = "nat \<times> nat \<times> bool"

fun run_set_status :: "(real \<Rightarrow> nat) \<Rightarrow> status_call list \<Rightarrow> ftl_state \<Rightarrow> ftl_state option" where
  "run_set_status g [] s = Some s"
| "run_set_status g ((queryID, new_status, init) # cs) s =
     (case query_set_status g queryID new_status init s of
        None \<Rightarrow> None
      | Some s1 \<Rightarrow> run_set_status g cs s1)"

text \<open>
  The live queries are those that have received their initial assignment. A sequence of
  calls is well formed when every call names a query of the array and a valid status, the
  bucket of the query is a slot of \<^verbatim>\<open>overTime\<close>, an initial assignment is the first call
  for its query, and a transition follows the initial assignment of its query.
\<close>

fun live_after :: "nat list \<Rightarrow> status_call list \<Rightarrow> nat list" where
  "live_after live [] = live"
| "live_after live ((queryID, new_status, init) # cs) =
     live_after (if init then queryID # live else live) cs"

fun calls_ok :: "(real \<Rightarrow> nat) \<Rightarrow> ftl_state \<Rightarrow> nat list \<Rightarrow> status_call list \<Rightarrow> bool" where
  "calls_ok g s live [] = True"
| "calls_ok g s live ((queryID, new_status, init) # cs) =
     (queryID < length (queries s) \<and> new_status < QUERY_STATUS_MAX
      \<and> g (q_timestamp (queries s ! queryID)) < OVERTIME_SLOTS s
      \<and> (if init then queryID \<notin> set live else queryID \<in> set live)
      \<and> calls_ok g s (if init then queryID # live else live) cs)"

definition count_live :: "(real \<Rightarrow> nat) \<Rightarrow> ftl_state \<Rightarrow> nat list \<Rightarrow> nat \<Rightarrow> (nat \<Rightarrow> bool) \<Rightarrow> int" where
  "count_live g s live bucket P =
     int (length (filter (\<lambda>q. g (q_timestamp (queries s ! q)) = bucket
                              \<and> P (q_status (queries s ! q))) live))"

definition live_wf :: "ftl_state \<Rightarrow> nat list \<Rightarrow> bool" where
  "live_wf s live =
     (length (counters_status s) = QUERY_STATUS_MAX \<and> distinct live
      \<and> list_all (\<lambda>q. q < length (queries s) \<and> q_status (queries s ! q) < QUERY_STATUS_MAX) live)"

definition counters_consistent :: "(real \<Rightarrow> nat) \<Rightarrow> ftl_state \<Rightarrow> nat list \<Rightarrow> bool" where
  "counters_consistent g s live =
     (sum_list (counters_status s) = int (length live)
      \<and> list_all (\<lambda>b. ot_blocked (overTime s ! b) = count_live g s live b is_blocked
                     \<and> ot_cached (overTime s ! b) = count_live g s live b is_cached
                     \<and> ot_forwarded (overTime s ! b)
                         = count_live g s live b (\<lambda>status. status = QUERY_FORWARDED))
          [0..<OVERTIME_SLOTS s])"

text \<open>
  A call of \<^verbatim>\<open>_findDomainID\<close> is the triple of the clock value, the name and the
  \<^verbatim>\<open>count\<close> flag; a run threads the state through the calls.
\<close>

type_synonym domain_call = "real \<times> string \<times> bool"

fun run_findDomainID :: "domain_call list \<Rightarrow> ftl_state \<Rightarrow> ftl_state" where
  "run_findDomainID [] s = s"
| "run_findDomainID ((now, domainString, count) # cs) s =
     run_findDomainID cs (snd (findDomainID now domainString count s))"

text \<open>
  \<open>n\<close> calls of \<^verbatim>\<open>_findClientID\<close> for one address, each with \<^verbatim>\<open>count\<close> set and
  \<^verbatim>\<open>aliasclient\<close> unset; the result lists the returned IDs.
\<close>

fun findClientID_times ::
  "nat \<Rightarrow> int \<Rightarrow> string \<Rightarrow> ftl_state \<Rightarrow> (int list \<times> ftl_state) option" where
  "findClientID_times 0 now clientIP s = Some ([], s)"
| "findClientID_times (Suc n) now clientIP s =
     (case findClientID now clientIP True False s of
        None \<Rightarrow> None
      | Some (clientID, s1) \<Rightarrow>
          (case findClientID_times n now clientIP s1 of
             None \<Rightarrow> None
           | Some (ids, s2) \<Rightarrow> Some (clientID # ids, s2)))"

section \<open>Reference scans of the specification\<close>

text \<open>
  The unaccelerated lookups: a forward scan from index 0 over the same slots, with the
  exact string comparison alone, the first match winning.
\<close>

definition spec_domain_scan :: "ftl_state \<Rightarrow> string \<Rightarrow> nat option" where
  "spec_domain_scan s domainString =
     find (\<lambda>domainID. case getDomain s (int domainID) False of
                         None \<Rightarrow> False
                       | Some domain \<Rightarrow> d_domainpos domain = domainString)
          [0..<counters_domains s]"

definition spec_client_scan :: "ftl_state \<Rightarrow> string \<Rightarrow> nat option" where
  "spec_client_scan s clientIP =
     find (\<lambda>clientID. case getClient s (int clientID) True of
                         None \<Rightarrow> False
                       | Some client \<Rightarrow> c_ippos client = clientIP)
          [0..<counters_clients s]"

text \<open>
  The data model of a domain record (section 3 of the spec): the stored hash is the hash
  of the stored name, in every slot of the array. \<^verbatim>\<open>_findDomainID\<close> writes both
  together, and a zeroed slot satisfies it too (the hash of the empty string is 0).
\<close>

definition domain_hashes_stored :: "ftl_state \<Rightarrow> bool" where
  "domain_hashes_stored s =
     list_all (\<lambda>domain. d_domainhash domain = hashStr (d_domainpos domain)) (domains s)"

text \<open>A slot is live when its tag is the sentinel, dead when the tag is unset.\<close>

definition domain_live :: "ftl_state \<Rightarrow> int \<Rightarrow> bool" where
  "domain_live s domainID =
     (0 \<le> domainID \<and> domainID < int (length (domains s))
      \<and> d_magic (domains s ! nat domainID) = MAGICBYTE)"

section \<open>The state at start-up\<close>

text \<open>
  Shared memory starts zeroed: every slot of every array is all-zero (tag unset, empty
  strings, zero counters), the counters are zero. \<open>fresh_state cap slots\<close> has \<open>cap\<close>
  slots per record kind and \<open>slots\<close> time buckets.
\<close>

definition zero_domain :: domainsData where
  "zero_domain = \<lparr>d_magic = 0, d_count = 0, d_blockedcount = 0, d_domainpos = [],
                   d_domainhash = 0, d_lastQuery = 0\<rparr>"

definition zero_client :: "nat \<Rightarrow> clientsData" where
  "zero_client slots =
     \<lparr>c_magic = 0, c_count = 0, c_blockedcount = 0, c_ippos = [], c_namepos = [],
      c_ifacepos = [], c_groupspos = [], c_flags_new = False, c_flags_found_group = False,
      c_flags_aliasclient = False, c_aliasclient_id = 0, c_lastQuery = 0,
      c_numQueriesARP = 0, c_reread_groups = 0, c_firstSeen = 0, c_hwlen = 0,
      c_hwaddr = replicate 16 0, c_overTime = replicate slots 0, c_id = 0\<rparr>"

definition zero_upstream :: upstreamsData where
  "zero_upstream = \<lparr>u_magic = 0, u_ippos = [], u_namepos = [], u_port = 0, u_failed = 0,
                     u_flags_new = False, u_rtime = 0, u_rtuncertainty = 0, u_responses = 0,
                     u_lastQuery = 0\<rparr>"

definition zero_cache :: DNSCacheData where
  "zero_cache = \<lparr>dc_magic = 0, dc_blocking_status = 0, dc_domainID = 0, dc_clientID = 0,
                  dc_query_type = 0, dc_force_reply = 0, dc_list_id = 0\<rparr>"

definition zero_query :: queriesData where
  "zero_query = \<lparr>q_id = 0, q_timestamp = 0, q_domainID = 0, q_CNAME_domainID = 0,
                  q_clientID = 0, q_status = 0, q_privacylevel = 0\<rparr>"

definition zero_overTime :: overTimeData where
  "zero_overTime = \<lparr>ot_total = 0, ot_blocked = 0, ot_cached = 0, ot_forwarded = 0\<rparr>"

definition fresh_state :: "nat \<Rightarrow> nat \<Rightarrow> ftl_state" where
  "fresh_state cap slots =
     \<lparr>counters_domains = 0, counters_clients = 0, counters_upstreams = 0,
      counters_dns_cache_size = 0, counters_status = replicate QUERY_STATUS_MAX 0,
      domains = replicate cap zero_domain,
      clients = replicate cap (zero_client slots),
      upstreams = replicate cap zero_upstream,
      dns_cache = replicate cap zero_cache,
      queries = replicate cap zero_query,
      overTime = replicate slots zero_overTime,
      log = [], event_RESOLVE_NEW_HOSTNAMES = False\<rparr>"

text \<open>Example values of the privacy macros, for the worked instances below.\<close>

definition ex_macros :: privacy_macros where
  "ex_macros = \<lparr>PRIVACY_HIDE_DOMAINS = 1, PRIVACY_HIDE_DOMAINS_CLIENTS = 2,
                 HIDDEN_DOMAIN = ''hidden'', HIDDEN_CLIENT = ''0.0.0.0''\<rparr>"

definition ex_domain_state :: ftl_state where
  "ex_domain_state =
     (fresh_state 1 1)
       \<lparr>domains := [zero_domain\<lparr>d_magic := MAGICBYTE, d_domainpos := ''example.com''\<rparr>],
        counters_domains := 1\<rparr>"

section \<open>Notions of the specification used in the statements\<close>

text \<open>
  The allocation rule of section 4.1 of the spec, as a predicate on the returned index:
  the lowest dead index of \<open>[0, count)\<close> if there is one, the high-water index \<open>count\<close>
  only otherwise.
\<close>

definition lowest_dead_or_count :: "(nat \<Rightarrow> bool) \<Rightarrow> nat \<Rightarrow> int \<Rightarrow> bool" where
  "lowest_dead_or_count dead count r =
     (if \<exists>i\<in>set [0..<count]. dead i
      then 0 \<le> r \<and> nat r < count \<and> dead (nat r) \<and> (\<forall>j\<in>set [0..<nat r]. \<not> dead j)
      else r = int count)"

text \<open>
  A dead upstream slot, by the test the source applies to the other kinds (the source has
  no such test for upstream servers).
\<close>

definition upstream_is_free :: "ftl_state \<Rightarrow> nat \<Rightarrow> bool" where
  "upstream_is_free s upstreamID =
     (case getUpstream s (int upstreamID) False of
        None \<Rightarrow> False
      | Some upstream \<Rightarrow> u_magic upstream = 0x00)"

section \<open>Example states\<close>

text \<open>An alias-client in slot 0.\<close>

definition ex_alias_state :: ftl_state where
  "ex_alias_state =
     (fresh_state 1 1)
       \<lparr>clients := [(zero_client 1)\<lparr>c_magic := MAGICBYTE, c_ippos := ''aliasclient-0'',
                                     c_flags_aliasclient := True, c_aliasclient_id := -1\<rparr>],
        counters_clients := 1\<rparr>"

text \<open>One upstream slot below the count, with its tag unset.\<close>

definition ex_upstream_state :: ftl_state where
  "ex_upstream_state = (fresh_state 2 1)\<lparr>counters_upstreams := 1\<rparr>"

text \<open>
  Per kind, a live record in slot 0 and a dead slot 1 below the count of 2; slot 2 is the
  high-water slot.
\<close>

definition ex_reuse_state :: ftl_state where
  "ex_reuse_state =
     (fresh_state 3 1)
       \<lparr>domains := [zero_domain\<lparr>d_magic := MAGICBYTE, d_domainpos := ''a.com'',
                                 d_domainhash := hashStr ''a.com''\<rparr>, zero_domain, zero_domain],
        counters_domains := 2,
        clients := [(zero_client 1)\<lparr>c_magic := MAGICBYTE, c_ippos := ''10.0.0.1'',
                                     c_aliasclient_id := -1\<rparr>, zero_client 1, zero_client 1],
        counters_clients := 2,
        dns_cache := [zero_cache\<lparr>dc_magic := MAGICBYTE\<rparr>, zero_cache, zero_cache],
        counters_dns_cache_size := 2\<rparr>"

text \<open>
  The name \<open>domainString\<close> resolves to slot \<open>i\<close>: the slot is live and the lookup of the
  name returns it.
\<close>

definition domain_resolves :: "ftl_state \<Rightarrow> string \<Rightarrow> nat \<Rightarrow> bool" where
  "domain_resolves s domainString i =
     (i < length (domains s) \<and> d_magic (domains s ! i) = MAGICBYTE
      \<and> domain_scan s domainString = Some i)"

text \<open>
  The address \<open>clientIP\<close> resolves to slot \<open>i\<close>, a concrete client without alias link
  whose count is \<open>n\<close> and whose time series is still zero.
\<close>

definition client_counted :: "ftl_state \<Rightarrow> string \<Rightarrow> nat \<Rightarrow> int \<Rightarrow> bool" where
  "client_counted s clientIP i n =
     (client_scan s clientIP = Some i \<and> i < length (clients s)
      \<and> c_count (clients s ! i) = n
      \<and> \<not> c_flags_aliasclient (clients s ! i) \<and> c_aliasclient_id (clients s ! i) = -1
      \<and> c_overTime (clients s ! i) = replicate (OVERTIME_SLOTS s) 0)"

text \<open>
  A worked example for the status state machine: two queries in different time buckets
  (buckets of 600 seconds), and a sequence of initial assignments and transitions.
\<close>

definition ex_getOverTimeID :: "real \<Rightarrow> nat" where
  "ex_getOverTimeID timestamp = (if timestamp < 600 then 0 else 1)"

definition ex_query_state :: ftl_state where
  "ex_query_state =
     (fresh_state 2 2)\<lparr>queries := [zero_query, zero_query\<lparr>q_id := 1, q_timestamp := 600\<rparr>]\<rparr>"

definition ex_calls :: "status_call list" where
  "ex_calls = [(0, QUERY_UNKNOWN, True), (1, QUERY_UNKNOWN, True), (0, QUERY_GRAVITY, False),
               (1, QUERY_FORWARDED, False), (0, QUERY_CACHE, False), (0, QUERY_CACHE, False)]"

section \<open>Basic facts\<close>

lemma MAGICBYTE_nonzero: "MAGICBYTE \<noteq> 0"
  by (simp add: MAGICBYTE_def)

lemma tolower_chars:
  "tolower CHR ''A'' = CHR ''a''"
  "tolower CHR ''B'' = CHR ''b''"
  "tolower CHR ''C'' = CHR ''c''"
  "tolower CHR ''D'' = CHR ''d''"
  "tolower CHR ''E'' = CHR ''e''"
  "tolower CHR ''F'' = CHR ''f''"
  "tolower CHR ''G'' = CHR ''g''"
  "tolower CHR ''H'' = CHR ''h''"
  "tolower CHR ''I'' = CHR ''i''"
  "tolower CHR ''J'' = CHR ''j''"
  "tolower CHR ''K'' = CHR ''k''"
  "tolower CHR ''L'' = CHR ''l''"
  "tolower CHR ''M'' = CHR ''m''"
  "tolower CHR ''N'' = CHR ''n''"
  "tolower CHR ''O'' = CHR ''o''"
  "tolower CHR ''P'' = CHR ''p''"
  "tolower CHR ''Q'' = CHR ''q''"
  "tolower CHR ''R'' = CHR ''r''"
  "tolower CHR ''S'' = CHR ''s''"
  "tolower CHR ''T'' = CHR ''t''"
  "tolower CHR ''U'' = CHR ''u''"
  "tolower CHR ''V'' = CHR ''v''"
  "tolower CHR ''W'' = CHR ''w''"
  "tolower CHR ''X'' = CHR ''x''"
  "tolower CHR ''Y'' = CHR ''y''"
  "tolower CHR ''Z'' = CHR ''z''"
  "tolower CHR ''a'' = CHR ''a''"
  "tolower CHR ''b'' = CHR ''b''"
  "tolower CHR ''c'' = CHR ''c''"
  "tolower CHR ''d'' = CHR ''d''"
  "tolower CHR ''e'' = CHR ''e''"
  "tolower CHR ''f'' = CHR ''f''"
  "tolower CHR ''g'' = CHR ''g''"
  "tolower CHR ''h'' = CHR ''h''"
  "tolower CHR ''i'' = CHR ''i''"
  "tolower CHR ''j'' = CHR ''j''"
  "tolower CHR ''k'' = CHR ''k''"
  "tolower CHR ''l'' = CHR ''l''"
  "tolower CHR ''m'' = CHR ''m''"
  "tolower CHR ''n'' = CHR ''n''"
  "tolower CHR ''o'' = CHR ''o''"
  "tolower CHR ''p'' = CHR ''p''"
  "tolower CHR ''q'' = CHR ''q''"
  "tolower CHR ''r'' = CHR ''r''"
  "tolower CHR ''s'' = CHR ''s''"
  "tolower CHR ''t'' = CHR ''t''"
  "tolower CHR ''u'' = CHR ''u''"
  "tolower CHR ''v'' = CHR ''v''"
  "tolower CHR ''w'' = CHR ''w''"
  "tolower CHR ''x'' = CHR ''x''"
  "tolower CHR ''y'' = CHR ''y''"
  "tolower CHR ''z'' = CHR ''z''"
  "tolower CHR ''4'' = CHR ''4''"
  "tolower CHR ''.'' = CHR ''.''"
  "tolower CHR ''_'' = CHR ''_''"
  by code_simp+

lemma enum_values:
  "0 \<le> (v::int) \<Longrightarrow> v < 3 \<Longrightarrow> v = 0 \<or> v = 1 \<or> v = 2"
  "0 \<le> (v::int) \<Longrightarrow> v < 4 \<Longrightarrow> v = 0 \<or> v = 1 \<or> v = 2 \<or> v = 3"
  "0 \<le> (v::int) \<Longrightarrow> v < 5 \<Longrightarrow> v = 0 \<or> v = 1 \<or> v = 2 \<or> v = 3 \<or> v = 4"
  by arith+

lemma refresh_hostnames_roundtrip:
  "0 \<le> v \<and> v < 4 \<and> strcasecmp_eq t (get_refresh_hostnames_str v) \<longrightarrow> get_refresh_hostnames_val t = v"
proof (intro impI, elim conjE)
  assume "0 \<le> v" "v < 4" and m: "strcasecmp_eq t (get_refresh_hostnames_str v)"
  then have "v = 0 \<or> v = 1 \<or> v = 2 \<or> v = 3" by arith
  with m show "get_refresh_hostnames_val t = v"
    by (auto simp: get_refresh_hostnames_val_def get_refresh_hostnames_str_def strcasecmp_eq_def tolower_chars)
qed

lemma refresh_hostnames_invalid:
  "(\<forall>v. 0 \<le> v \<and> v < 4 \<longrightarrow> \<not> strcasecmp_eq t (get_refresh_hostnames_str v)) \<longrightarrow> get_refresh_hostnames_val t = -1"
proof
  assume h: "\<forall>v. 0 \<le> v \<and> v < 4 \<longrightarrow> \<not> strcasecmp_eq t (get_refresh_hostnames_str v)"
  show "get_refresh_hostnames_val t = -1"
    using h [rule_format, of 0] h [rule_format, of 1] h [rule_format, of 2] h [rule_format, of 3]
    by (simp add: get_refresh_hostnames_val_def get_refresh_hostnames_str_def)
qed

lemma blocking_mode_roundtrip:
  "0 \<le> v \<and> v < MODE_MAX \<and> strcasecmp_eq t (get_blocking_mode_str v) \<longrightarrow> get_blocking_mode_val t = v"
proof (intro impI, elim conjE)
  assume "0 \<le> v" "v < 5" and m: "strcasecmp_eq t (get_blocking_mode_str v)"
  then have "v = 0 \<or> v = 1 \<or> v = 2 \<or> v = 3 \<or> v = 4" by arith
  with m show "get_blocking_mode_val t = v"
    by (auto simp: get_blocking_mode_val_def get_blocking_mode_str_def strcasecmp_eq_def tolower_chars)
qed

lemma blocking_mode_invalid:
  "(\<forall>v. 0 \<le> v \<and> v < MODE_MAX \<longrightarrow> \<not> strcasecmp_eq t (get_blocking_mode_str v)) \<longrightarrow> get_blocking_mode_val t = -1"
proof
  assume h: "\<forall>v. 0 \<le> v \<and> v < MODE_MAX \<longrightarrow> \<not> strcasecmp_eq t (get_blocking_mode_str v)"
  show "get_blocking_mode_val t = -1"
    using h [rule_format, of 0] h [rule_format, of 1] h [rule_format, of 2] h [rule_format, of 3] h [rule_format, of 4]
    by (simp add: get_blocking_mode_val_def get_blocking_mode_str_def)
qed

lemma ptr_type_roundtrip:
  "get_ptr_type_str v = Some str \<and> strcasecmp_eq t str \<longrightarrow> get_ptr_type_val t = v"
  by (auto simp: get_ptr_type_val_def get_ptr_type_str_def strcasecmp_eq_def tolower_chars split: if_splits)

lemma ptr_type_invalid:
  "(\<forall>v str. get_ptr_type_str v = Some str \<longrightarrow> \<not> strcasecmp_eq t str) \<and> \<not> strcasecmp_eq t ''false'' \<longrightarrow> get_ptr_type_val t = -1"
proof (intro impI, elim conjE)
  assume h: "\<forall>v str. get_ptr_type_str v = Some str \<longrightarrow> \<not> strcasecmp_eq t str" and f: "\<not> strcasecmp_eq t ''false''"
  show "get_ptr_type_val t = -1"
    using h [rule_format, of 0] h [rule_format, of 1] h [rule_format, of 2] h [rule_format, of 3] f
    by (simp add: get_ptr_type_val_def get_ptr_type_str_def strcasecmp_eq_def tolower_chars)
qed

lemma busy_reply_roundtrip:
  "get_busy_reply_str v = Some str \<and> strcasecmp_eq t str \<longrightarrow> get_busy_reply_val t = v"
  by (auto simp: get_busy_reply_val_def get_busy_reply_str_def strcasecmp_eq_def tolower_chars split: if_splits)

lemma busy_reply_invalid:
  "(\<forall>v str. get_busy_reply_str v = Some str \<longrightarrow> \<not> strcasecmp_eq t str) \<longrightarrow> get_busy_reply_val t = -1"
proof
  assume h: "\<forall>v str. get_busy_reply_str v = Some str \<longrightarrow> \<not> strcasecmp_eq t str"
  show "get_busy_reply_val t = -1"
    using h [rule_format, of 0] h [rule_format, of 1] h [rule_format, of 2] h [rule_format, of 3]
    by (simp add: get_busy_reply_val_def get_busy_reply_str_def strcasecmp_eq_def tolower_chars)
qed

lemma listeningMode_roundtrip:
  "get_listeningMode_str v = Some str \<and> strcasecmp_eq t str \<longrightarrow> get_listeningMode_val t = v"
  by (auto simp: get_listeningMode_val_def get_listeningMode_str_def strcasecmp_eq_def tolower_chars split: if_splits)

lemma listeningMode_invalid:
  "(\<forall>v str. get_listeningMode_str v = Some str \<longrightarrow> \<not> strcasecmp_eq t str) \<longrightarrow> get_listeningMode_val t = -1"
proof
  assume h: "\<forall>v str. get_listeningMode_str v = Some str \<longrightarrow> \<not> strcasecmp_eq t str"
  show "get_listeningMode_val t = -1"
    using h [rule_format, of 0] h [rule_format, of 1] h [rule_format, of 2] h [rule_format, of 3] h [rule_format, of 4]
    by (simp add: get_listeningMode_val_def get_listeningMode_str_def strcasecmp_eq_def tolower_chars)
qed

lemma temp_unit_roundtrip:
  "get_temp_unit_str v = Some str \<and> strcasecmp_eq t str \<longrightarrow> get_temp_unit_val t = v"
  by (auto simp: get_temp_unit_val_def get_temp_unit_str_def strcasecmp_eq_def tolower_chars split: if_splits)

lemma temp_unit_invalid:
  "(\<forall>v str. get_temp_unit_str v = Some str \<longrightarrow> \<not> strcasecmp_eq t str) \<longrightarrow> get_temp_unit_val t = -1"
proof
  assume h: "\<forall>v str. get_temp_unit_str v = Some str \<longrightarrow> \<not> strcasecmp_eq t str"
  show "get_temp_unit_val t = -1"
    using h [rule_format, of 0] h [rule_format, of 1] h [rule_format, of 2]
    by (simp add: get_temp_unit_val_def get_temp_unit_str_def strcasecmp_eq_def tolower_chars)
qed

lemma ptr_type_false:
  "strcasecmp_eq t ''false'' \<longrightarrow> get_ptr_type_val t = PTR_NONE"
  by (simp add: get_ptr_type_val_def strcasecmp_eq_def tolower_chars)


section \<open>Status classification and the defensive guard\<close>

lemma blocked_not_cached: "\<not> (is_blocked status \<and> is_cached status)"
  by (simp add: is_blocked_def is_cached_def)

text \<open>
  Claim C10. The two classification predicates are disjoint: no status value is both
  blocked and cached. Hence, for every time bucket, the live queries counted as blocked and
  those counted as cached are disjoint sets.
\<close>

theorem C10_blocked_cached_disjoint:
  "\<not> (is_blocked status \<and> is_cached status)
   \<and> set (filter (\<lambda>q. g (q_timestamp (queries s ! q)) = bucket
                        \<and> is_blocked (q_status (queries s ! q))) live)
     \<inter> set (filter (\<lambda>q. g (q_timestamp (queries s ! q)) = bucket
                          \<and> is_cached (q_status (queries s ! q))) live) = {}"
  using blocked_not_cached by auto

theorem C10_witness:
  "is_blocked QUERY_GRAVITY \<and> \<not> is_cached QUERY_GRAVITY
   \<and> is_cached QUERY_CACHE \<and> \<not> is_blocked QUERY_CACHE"
  using C10_blocked_cached_disjoint [of QUERY_GRAVITY]
    C10_blocked_cached_disjoint [of QUERY_CACHE]
  by (simp add: is_blocked_def is_cached_def)

text \<open>
  Claim C5. For a query of the array and a new status outside the enumeration
  (\<open>new_status \<ge> QUERY_STATUS_MAX\<close>), \<^verbatim>\<open>_query_set_status\<close> returns with the whole
  state unchanged: the stored status, the histogram and every time bucket keep their
  values, with or without the \<^verbatim>\<open>init\<close> flag.
\<close>

theorem C5_invalid_status_noop:
  assumes "queryID < length (queries s)" and "QUERY_STATUS_MAX \<le> new_status"
  shows "query_set_status getOverTimeID queryID new_status init s = Some s"
  using assms by (simp add: query_set_status_def)

theorem C5_witness:
  "0 < length (queries (fresh_state 1 1)) \<and> QUERY_STATUS_MAX \<le> 18
   \<and> query_set_status (\<lambda>t. 0) 0 18 True (fresh_state 1 1) = Some (fresh_state 1 1)
   \<and> query_set_status (\<lambda>t. 0) 0 200 False (fresh_state 1 1) = Some (fresh_state 1 1)"
proof -
  have h: "0 < length (queries (fresh_state 1 1))"
    by (simp add: fresh_state_def)
  show ?thesis
    using h C5_invalid_status_noop [OF h, of 18 "\<lambda>t. 0" True]
      C5_invalid_status_noop [OF h, of 200 "\<lambda>t. 0" False]
    by simp
qed

section \<open>Enumeration strings\<close>

text \<open>
  Claim C9. For each enumeration with a printer and a parser in the source (blocking mode,
  temperature unit, hostname refresh, busy reply, listening mode, PTR mode): a token that
  equals, up to case, the string printed for a valid value parses to that value; a token
  that the parser does not recognise parses to \<open>-1\<close>, which is no valid value. The
  recognised tokens are the printed strings of the valid values, and for the PTR mode
  also \<^verbatim>\<open>false\<close>, a second spelling of \<^verbatim>\<open>NONE\<close>.
\<close>

theorem C9_enum_string_roundtrip:
  "(0 \<le> v \<and> v < MODE_MAX \<and> strcasecmp_eq t (get_blocking_mode_str v) \<longrightarrow> get_blocking_mode_val t = v)
   \<and> ((\<forall>v. 0 \<le> v \<and> v < MODE_MAX \<longrightarrow> \<not> strcasecmp_eq t (get_blocking_mode_str v)) \<longrightarrow> get_blocking_mode_val t = -1)
   \<and> (get_temp_unit_str v = Some str \<and> strcasecmp_eq t str \<longrightarrow> get_temp_unit_val t = v)
   \<and> ((\<forall>v str. get_temp_unit_str v = Some str \<longrightarrow> \<not> strcasecmp_eq t str) \<longrightarrow> get_temp_unit_val t = -1)
   \<and> (0 \<le> v \<and> v < 4 \<and> strcasecmp_eq t (get_refresh_hostnames_str v) \<longrightarrow> get_refresh_hostnames_val t = v)
   \<and> ((\<forall>v. 0 \<le> v \<and> v < 4 \<longrightarrow> \<not> strcasecmp_eq t (get_refresh_hostnames_str v)) \<longrightarrow> get_refresh_hostnames_val t = -1)
   \<and> (get_busy_reply_str v = Some str \<and> strcasecmp_eq t str \<longrightarrow> get_busy_reply_val t = v)
   \<and> ((\<forall>v str. get_busy_reply_str v = Some str \<longrightarrow> \<not> strcasecmp_eq t str) \<longrightarrow> get_busy_reply_val t = -1)
   \<and> (get_listeningMode_str v = Some str \<and> strcasecmp_eq t str \<longrightarrow> get_listeningMode_val t = v)
   \<and> ((\<forall>v str. get_listeningMode_str v = Some str \<longrightarrow> \<not> strcasecmp_eq t str) \<longrightarrow> get_listeningMode_val t = -1)
   \<and> (get_ptr_type_str v = Some str \<and> strcasecmp_eq t str \<longrightarrow> get_ptr_type_val t = v)
   \<and> ((\<forall>v str. get_ptr_type_str v = Some str \<longrightarrow> \<not> strcasecmp_eq t str) \<and> \<not> strcasecmp_eq t ''false'' \<longrightarrow> get_ptr_type_val t = -1)
   \<and> (strcasecmp_eq t ''false'' \<longrightarrow> get_ptr_type_val t = PTR_NONE)"
  by (intro conjI blocking_mode_roundtrip blocking_mode_invalid temp_unit_roundtrip temp_unit_invalid refresh_hostnames_roundtrip refresh_hostnames_invalid busy_reply_roundtrip busy_reply_invalid listeningMode_roundtrip listeningMode_invalid ptr_type_roundtrip ptr_type_invalid ptr_type_false)

theorem C9_witness:
  "get_blocking_mode_val ''NoData'' = MODE_NODATA
   \<and> get_blocking_mode_val ''bogus'' = -1
   \<and> get_temp_unit_val ''k'' = TEMP_UNIT_K
   \<and> get_temp_unit_val ''bogus'' = -1"
proof -
  have a: "0 \<le> MODE_NODATA \<and> MODE_NODATA < 5
           \<and> strcasecmp_eq ''NoData'' (get_blocking_mode_str MODE_NODATA)"
    by (simp add: get_blocking_mode_str_def strcasecmp_eq_def tolower_chars)
  have b: "\<forall>v. 0 \<le> v \<and> v < 5 \<longrightarrow> \<not> strcasecmp_eq ''bogus'' (get_blocking_mode_str v)"
    by (simp add: get_blocking_mode_str_def strcasecmp_eq_def tolower_chars)
  have c: "get_temp_unit_str TEMP_UNIT_K = Some ''K'' \<and> strcasecmp_eq ''k'' ''K''"
    by (simp add: get_temp_unit_str_def strcasecmp_eq_def tolower_chars)
  have d: "\<forall>v str. get_temp_unit_str v = Some str \<longrightarrow> \<not> strcasecmp_eq ''bogus'' str"
    by (simp add: get_temp_unit_str_def strcasecmp_eq_def tolower_chars)
  note t = C9_enum_string_roundtrip
  from a t [THEN conjunct1, of MODE_NODATA "''NoData''"]
  have 1: "get_blocking_mode_val ''NoData'' = MODE_NODATA" by (rule rev_mp)
  from b t [THEN conjunct2, THEN conjunct1, of "''bogus''"]
  have 2: "get_blocking_mode_val ''bogus'' = -1" by (rule rev_mp)
  from c t [THEN conjunct2, THEN conjunct2, THEN conjunct1, of TEMP_UNIT_K "''K''" "''k''"]
  have 3: "get_temp_unit_val ''k'' = TEMP_UNIT_K" by (rule rev_mp)
  from d t [THEN conjunct2, THEN conjunct2, THEN conjunct2, THEN conjunct1, of "''bogus''"]
  have 4: "get_temp_unit_val ''bogus'' = -1" by (rule rev_mp)
  from 1 2 3 4 show ?thesis by (intro conjI)
qed

section \<open>Privacy projection\<close>

lemma getDomainString_cases:
  "getDomainString m s None = []
   \<and> (q_domainID q < 0 \<longrightarrow> getDomainString m s (Some q) = [])
   \<and> (0 \<le> q_domainID q \<and> PRIVACY_HIDE_DOMAINS m \<le> q_privacylevel q
        \<longrightarrow> getDomainString m s (Some q) = HIDDEN_DOMAIN m)
   \<and> (0 \<le> q_domainID q \<and> q_privacylevel q < PRIVACY_HIDE_DOMAINS m
        \<longrightarrow> getDomainString m s (Some q)
            = (case getDomain s (q_domainID q) True of
                 None \<Rightarrow> [] | Some domain \<Rightarrow> d_domainpos domain))"
  by (simp add: getDomainString_def)

lemma getClientIPString_cases:
  "getClientIPString m s None = []
   \<and> (q_clientID q < 0 \<longrightarrow> getClientIPString m s (Some q) = [])
   \<and> (0 \<le> q_clientID q \<and> PRIVACY_HIDE_DOMAINS_CLIENTS m \<le> q_privacylevel q
        \<longrightarrow> getClientIPString m s (Some q) = HIDDEN_CLIENT m)
   \<and> (0 \<le> q_clientID q \<and> q_privacylevel q < PRIVACY_HIDE_DOMAINS_CLIENTS m
        \<longrightarrow> getClientIPString m s (Some q)
            = (case getClient s (q_clientID q) True of
                 None \<Rightarrow> [] | Some client \<Rightarrow> c_ippos client))"
  by (simp add: getClientIPString_def)

lemma getClientNameString_cases:
  "getClientNameString m s None = []
   \<and> (q_clientID q < 0 \<longrightarrow> getClientNameString m s (Some q) = [])
   \<and> (0 \<le> q_clientID q \<and> PRIVACY_HIDE_DOMAINS_CLIENTS m \<le> q_privacylevel q
        \<longrightarrow> getClientNameString m s (Some q) = HIDDEN_CLIENT m)
   \<and> (0 \<le> q_clientID q \<and> q_privacylevel q < PRIVACY_HIDE_DOMAINS_CLIENTS m
        \<longrightarrow> getClientNameString m s (Some q)
            = (case getClient s (q_clientID q) True of
                 None \<Rightarrow> [] | Some client \<Rightarrow> c_namepos client))"
  by (simp add: getClientNameString_def)

text \<open>
  Claim C4. The domain accessor returns the empty string for an absent query and for a
  negative domain ID; otherwise, at a privacy level at or above the hide-domains
  threshold, it returns the placeholder without looking at the domain record; and below
  the threshold it resolves the record with the liveness check: the empty string when the
  accessor finds none, the stored name otherwise. The client-IP and client-name accessors
  do the same with the client ID, the hide-domains-and-clients threshold and the client
  placeholder.
\<close>

theorem C4_privacy_accessors:
  "(getDomainString m s None = []
    \<and> (q_domainID q < 0 \<longrightarrow> getDomainString m s (Some q) = [])
    \<and> (0 \<le> q_domainID q \<and> PRIVACY_HIDE_DOMAINS m \<le> q_privacylevel q
         \<longrightarrow> getDomainString m s (Some q) = HIDDEN_DOMAIN m)
    \<and> (0 \<le> q_domainID q \<and> q_privacylevel q < PRIVACY_HIDE_DOMAINS m
         \<longrightarrow> getDomainString m s (Some q)
             = (case getDomain s (q_domainID q) True of
                  None \<Rightarrow> [] | Some domain \<Rightarrow> d_domainpos domain)))
   \<and> (getClientIPString m s None = []
    \<and> (q_clientID q < 0 \<longrightarrow> getClientIPString m s (Some q) = [])
    \<and> (0 \<le> q_clientID q \<and> PRIVACY_HIDE_DOMAINS_CLIENTS m \<le> q_privacylevel q
         \<longrightarrow> getClientIPString m s (Some q) = HIDDEN_CLIENT m)
    \<and> (0 \<le> q_clientID q \<and> q_privacylevel q < PRIVACY_HIDE_DOMAINS_CLIENTS m
         \<longrightarrow> getClientIPString m s (Some q)
             = (case getClient s (q_clientID q) True of
                  None \<Rightarrow> [] | Some client \<Rightarrow> c_ippos client)))
   \<and> (getClientNameString m s None = []
    \<and> (q_clientID q < 0 \<longrightarrow> getClientNameString m s (Some q) = [])
    \<and> (0 \<le> q_clientID q \<and> PRIVACY_HIDE_DOMAINS_CLIENTS m \<le> q_privacylevel q
         \<longrightarrow> getClientNameString m s (Some q) = HIDDEN_CLIENT m)
    \<and> (0 \<le> q_clientID q \<and> q_privacylevel q < PRIVACY_HIDE_DOMAINS_CLIENTS m
         \<longrightarrow> getClientNameString m s (Some q)
             = (case getClient s (q_clientID q) True of
                  None \<Rightarrow> [] | Some client \<Rightarrow> c_namepos client)))"
  by (intro conjI getDomainString_cases getClientIPString_cases getClientNameString_cases)

theorem C4_witness:
  "getDomainString ex_macros ex_domain_state (Some (zero_query\<lparr>q_domainID := -1\<rparr>)) = []
   \<and> getDomainString ex_macros ex_domain_state
        (Some (zero_query\<lparr>q_domainID := 7, q_privacylevel := 1\<rparr>)) = ''hidden''
   \<and> getDomainString ex_macros ex_domain_state (Some (zero_query\<lparr>q_domainID := 7\<rparr>)) = []
   \<and> getDomainString ex_macros ex_domain_state (Some zero_query) = ''example.com''
   \<and> getClientIPString ex_macros ex_domain_state
        (Some (zero_query\<lparr>q_clientID := 7, q_privacylevel := 2\<rparr>)) = ''0.0.0.0''
   \<and> getClientNameString ex_macros ex_domain_state
        (Some (zero_query\<lparr>q_clientID := 7, q_privacylevel := 3\<rparr>)) = ''0.0.0.0''"
  using C4_privacy_accessors [of ex_macros ex_domain_state "zero_query\<lparr>q_domainID := -1\<rparr>"]
    C4_privacy_accessors [of ex_macros ex_domain_state
       "zero_query\<lparr>q_domainID := 7, q_privacylevel := 1\<rparr>"]
    C4_privacy_accessors [of ex_macros ex_domain_state "zero_query\<lparr>q_domainID := 7\<rparr>"]
    C4_privacy_accessors [of ex_macros ex_domain_state zero_query]
    C4_privacy_accessors [of ex_macros ex_domain_state
       "zero_query\<lparr>q_clientID := 7, q_privacylevel := 2\<rparr>"]
    C4_privacy_accessors [of ex_macros ex_domain_state
       "zero_query\<lparr>q_clientID := 7, q_privacylevel := 3\<rparr>"]
  by (simp add: ex_macros_def zero_query_def ex_domain_state_def fresh_state_def getDomain_def)

section \<open>Forward scans\<close>

lemma nth_list_update_any:
  "xs[i := x] ! j = (if i = j \<and> i < length xs then x else xs ! j)"
  by (cases "i < length xs") (auto simp: nth_list_update list_update_beyond)

lemma find_upt_Some_iff:
  "(find P [0..<n] = Some i) = (i < n \<and> P i \<and> (\<forall>j<i. \<not> P j))"
  by (auto simp: find_Some_iff)

lemma find_upt_None_iff:
  "(find P [0..<n] = None) = (\<forall>i<n. \<not> P i)"
  by (auto simp: find_None_iff)

lemma find_upt_cong:
  assumes "\<And>i. i < n \<Longrightarrow> P i = Q i"
  shows "find P [0..<n] = find Q [0..<n]"
  by (rule find_cong) (use assms in auto)

lemma find_lowest:
  "lowest_dead_or_count dead count
     (int (case find dead [0..<count] of Some i \<Rightarrow> i | None \<Rightarrow> count))"
proof (cases "find dead [0..<count]")
  case None
  then have "\<forall>i<count. \<not> dead i"
    by (simp add: find_upt_None_iff)
  with None show ?thesis
    by (simp add: lowest_dead_or_count_def)
next
  case (Some i)
  then have "i < count" "dead i" "\<forall>j<i. \<not> dead j"
    by (simp_all add: find_upt_Some_iff)
  with Some show ?thesis
    by (auto simp: lowest_dead_or_count_def)
qed

section \<open>Pre-filters of the lookups\<close>

lemma first_char_differs: "first_char a \<noteq> first_char b \<Longrightarrow> a \<noteq> b"
  by auto

lemma client_hit_exact:
  "client_hit s clientIP i
   = (case getClient s (int i) True of None \<Rightarrow> False | Some client \<Rightarrow> c_ippos client = clientIP)"
  unfolding client_hit_def using first_char_differs
  by (auto split: option.splits)

lemma domain_hit_exact:
  assumes "domain_hashes_stored s"
  shows "domain_hit s (hashStr domainString) domainString i
   = (case getDomain s (int i) False of None \<Rightarrow> False | Some domain \<Rightarrow> d_domainpos domain = domainString)"
proof (cases "i < length (domains s)")
  case True
  with assms have "d_domainhash (domains s ! i) = hashStr (d_domainpos (domains s ! i))"
    by (simp add: domain_hashes_stored_def list_all_length)
  with True show ?thesis
    by (auto simp: domain_hit_def getDomain_def)
next
  case False
  then show ?thesis by (simp add: domain_hit_def getDomain_def)
qed

text \<open>
  Claim C8. The pre-filters never change the result of a lookup. In a state whose domain
  records store the hash of their name, the domain scan with the hash test returns what
  the scan with the string comparison alone returns; and in every state the client scan
  with the first-character test returns what the scan with the string comparison alone
  returns. Both scans run forward from index 0 and the first match wins.
\<close>

theorem C8_prefilters_transparent:
  "(domain_hashes_stored s \<longrightarrow> domain_scan s domainString = spec_domain_scan s domainString)
   \<and> client_scan s clientIP = spec_client_scan s clientIP"
proof (intro conjI impI)
  assume "domain_hashes_stored s"
  then show "domain_scan s domainString = spec_domain_scan s domainString"
    unfolding domain_scan_def spec_domain_scan_def Let_def
    by (intro find_upt_cong domain_hit_exact)
next
  show "client_scan s clientIP = spec_client_scan s clientIP"
    unfolding client_scan_def spec_client_scan_def
    by (intro find_upt_cong client_hit_exact)
qed

theorem C8_witness:
  "domain_hashes_stored ex_reuse_state
   \<and> domain_scan ex_reuse_state ''a.com'' = spec_domain_scan ex_reuse_state ''a.com''
   \<and> spec_domain_scan ex_reuse_state ''a.com'' = Some 0
   \<and> client_scan ex_reuse_state ''10.0.0.1'' = spec_client_scan ex_reuse_state ''10.0.0.1''
   \<and> spec_client_scan ex_reuse_state ''10.0.0.1'' = Some 0"
proof -
  have h: "domain_hashes_stored ex_reuse_state"
    by code_simp
  have v: "spec_domain_scan ex_reuse_state ''a.com'' = Some 0"
    "spec_client_scan ex_reuse_state ''10.0.0.1'' = Some 0"
    by code_simp+
  from h v C8_prefilters_transparent [of ex_reuse_state "''a.com''" "''10.0.0.1''"]
  show ?thesis by simp
qed

section \<open>Client counters and the alias-client guard\<close>

text \<open>
  Claim C2, as stated, fails: the call is not a no-op on an alias-client. The deltas are
  added to the record and to the global bucket before the flag is tested. In the example
  the count, the blocked count, the time series of the alias-client and the total of
  bucket 0 all go from 0 to 1.
\<close>

theorem C2_counterexample:
  "c_flags_aliasclient (clients ex_alias_state ! 0)
   \<and> change_clientcount 0 1 1 0 1 ex_alias_state \<noteq> None
   \<and> map c_count (clients ex_alias_state) = [0]
   \<and> map c_count (clients (the (change_clientcount 0 1 1 0 1 ex_alias_state))) = [1]
   \<and> map c_blockedcount (clients ex_alias_state) = [0]
   \<and> map c_blockedcount (clients (the (change_clientcount 0 1 1 0 1 ex_alias_state))) = [1]
   \<and> map c_overTime (clients ex_alias_state) = [[0]]
   \<and> map c_overTime (clients (the (change_clientcount 0 1 1 0 1 ex_alias_state))) = [[1]]
   \<and> map ot_total (overTime ex_alias_state) = [0]
   \<and> map ot_total (overTime (the (change_clientcount 0 1 1 0 1 ex_alias_state))) = [1]"
  by (simp add: ex_alias_state_def fresh_state_def zero_client_def zero_overTime_def
      change_clientcount_def OVERTIME_SLOTS_def Let_def)

text \<open>
  Claim C2, amended. On a client record whose alias-client flag is set,
  \<^verbatim>\<open>change_clientcount\<close> adds the deltas to the count and the blocked count of that
  record and, when the bucket index is in range, to its time series and to the total of
  the global bucket; it then logs the warning and returns: no other client record
  changes.
\<close>

theorem C2_alias_client_delta:
  assumes "clientID < length (clients s)"
    and "c_flags_aliasclient (clients s ! clientID)"
  shows "\<exists>s'. change_clientcount clientID total' blocked overTimeIdx overTimeMod s = Some s'
     \<and> c_count (clients s' ! clientID) = c_count (clients s ! clientID) + total'
     \<and> c_blockedcount (clients s' ! clientID) = c_blockedcount (clients s ! clientID) + blocked
     \<and> c_overTime (clients s' ! clientID)
         = (if -1 < overTimeIdx \<and> overTimeIdx < int (OVERTIME_SLOTS s)
            then (c_overTime (clients s ! clientID))
                   [nat overTimeIdx := c_overTime (clients s ! clientID) ! nat overTimeIdx + overTimeMod]
            else c_overTime (clients s ! clientID))
     \<and> overTime s'
         = (if -1 < overTimeIdx \<and> overTimeIdx < int (OVERTIME_SLOTS s)
            then (overTime s)[nat overTimeIdx := (overTime s ! nat overTimeIdx)
                   \<lparr>ot_total := ot_total (overTime s ! nat overTimeIdx) + overTimeMod\<rparr>]
            else overTime s)
     \<and> length (clients s') = length (clients s)
     \<and> (\<forall>j. j \<noteq> clientID \<longrightarrow> clients s' ! j = clients s ! j)
     \<and> log s' = log s @ [Warn_alias_client_direct (c_namepos (clients s ! clientID))
                                                 (c_ippos (clients s ! clientID))]"
  using assms by (simp add: change_clientcount_def Let_def)

theorem C2_witness:
  "0 < length (clients ex_alias_state) \<and> c_flags_aliasclient (clients ex_alias_state ! 0)
   \<and> (\<exists>s'. change_clientcount 0 1 0 (-1) 0 ex_alias_state = Some s'
         \<and> c_count (clients s' ! 0) = 1 \<and> overTime s' = overTime ex_alias_state
         \<and> log s' = [Warn_alias_client_direct [] ''aliasclient-0''])"
proof -
  have h1: "0 < length (clients ex_alias_state)"
    and h2: "c_flags_aliasclient (clients ex_alias_state ! 0)"
    by (simp_all add: ex_alias_state_def fresh_state_def zero_client_def)
  have v: "c_count (clients ex_alias_state ! 0) = 0" "log ex_alias_state = []"
    "c_namepos (clients ex_alias_state ! 0) = []" "c_ippos (clients ex_alias_state ! 0) = ''aliasclient-0''"
    by (simp_all add: ex_alias_state_def fresh_state_def zero_client_def)
  from C2_alias_client_delta [OF h1 h2, of 1 0 "-1" 0] h1 h2 v
  show ?thesis by auto
qed

section \<open>Allocation on a miss\<close>

lemma findDomainID_miss:
  assumes "domain_scan s domainString = None"
    and "fst (findDomainID now domainString cnt s) \<noteq> -1"
  shows "fst (findDomainID now domainString cnt s) = int (get_next_free_domainID s)"
    and "counters_domains (snd (findDomainID now domainString cnt s)) = counters_domains s + 1"
  using assms by (auto simp: findDomainID_def Let_def split: option.splits)

lemma findClientID_miss:
  assumes "client_scan s clientIP = None" and "cnt \<or> aliasclient"
    and "findClientID tnow clientIP cnt aliasclient s = Some (r, s')" and "r \<noteq> -1"
  shows "r = int (get_next_free_clientID s)"
    and "counters_clients s' = counters_clients s + 1"
  using assms by (auto simp: findClientID_def Let_def split: option.splits)

lemma findCacheID_miss:
  assumes "find (cache_hit s domainID clientID query_type) [0..<counters_dns_cache_size s] = None"
    and "create_new"
    and "fst (findCacheID domainID clientID query_type create_new s) \<noteq> -1"
  shows "fst (findCacheID domainID clientID query_type create_new s) = int (get_next_free_cacheID s)"
    and "counters_dns_cache_size (snd (findCacheID domainID clientID query_type create_new s))
         = counters_dns_cache_size s + 1"
  using assms by (auto simp: findCacheID_def Let_def split: option.splits)

lemma findUpstreamID_miss:
  assumes "find (upstream_hit s upstreamString port) [0..<counters_upstreams s] = None"
    and "fst (findUpstreamID upstreamString port s) \<noteq> -1"
  shows "fst (findUpstreamID upstreamString port s) = int (counters_upstreams s)"
    and "counters_upstreams (snd (findUpstreamID upstreamString port s)) = counters_upstreams s + 1"
  using assms by (auto simp: findUpstreamID_def Let_def split: option.splits)

lemma alloc_domains:
  "domain_scan s domainString = None \<and> fst (findDomainID now domainString cnt s) \<noteq> -1
   \<longrightarrow> lowest_dead_or_count (domain_is_free s) (counters_domains s)
         (fst (findDomainID now domainString cnt s))
       \<and> ((\<forall>i\<in>set [0..<counters_domains s]. \<not> domain_is_free s i)
            \<longrightarrow> counters_domains (snd (findDomainID now domainString cnt s))
                = counters_domains s + 1)"
  using findDomainID_miss [of s domainString now cnt]
    find_lowest [of "domain_is_free s" "counters_domains s"]
  by (auto simp: get_next_free_domainID_def)

lemma alloc_clients:
  "client_scan s clientIP = None \<and> (cnt \<or> aliasclient)
   \<and> findClientID tnow clientIP cnt aliasclient s = Some (r, s') \<and> r \<noteq> -1
   \<longrightarrow> lowest_dead_or_count (client_is_free s) (counters_clients s) r
       \<and> ((\<forall>i\<in>set [0..<counters_clients s]. \<not> client_is_free s i)
            \<longrightarrow> counters_clients s' = counters_clients s + 1)"
  using findClientID_miss [of s clientIP cnt aliasclient tnow r s']
    find_lowest [of "client_is_free s" "counters_clients s"]
  by (auto simp: get_next_free_clientID_def)

lemma alloc_cache:
  "find (cache_hit s domainID clientID query_type) [0..<counters_dns_cache_size s] = None
   \<and> create_new \<and> fst (findCacheID domainID clientID query_type create_new s) \<noteq> -1
   \<longrightarrow> lowest_dead_or_count (cache_is_free s) (counters_dns_cache_size s)
         (fst (findCacheID domainID clientID query_type create_new s))
       \<and> ((\<forall>i\<in>set [0..<counters_dns_cache_size s]. \<not> cache_is_free s i)
            \<longrightarrow> counters_dns_cache_size (snd (findCacheID domainID clientID query_type create_new s))
                = counters_dns_cache_size s + 1)"
  using findCacheID_miss [of s domainID clientID query_type create_new]
    find_lowest [of "cache_is_free s" "counters_dns_cache_size s"]
  by (auto simp: get_next_free_cacheID_def)

lemma alloc_upstreams:
  "find (upstream_hit s upstreamString port) [0..<counters_upstreams s] = None
   \<and> fst (findUpstreamID upstreamString port s) \<noteq> -1
   \<longrightarrow> fst (findUpstreamID upstreamString port s) = int (counters_upstreams s)
       \<and> counters_upstreams (snd (findUpstreamID upstreamString port s))
           = counters_upstreams s + 1"
  using findUpstreamID_miss [of s upstreamString port] by blast

text \<open>
  Claim C3, as stated, fails for upstream servers: \<^verbatim>\<open>_findUpstreamID\<close> never looks for a
  dead slot. In the example slot 0 lies below the count and its tag is unset, the lookup
  misses, and the new record goes to index 1, the count.
\<close>

theorem C3_counterexample:
  "find (upstream_hit ex_upstream_state ''8.8.8.8'' 53)
        [0..<counters_upstreams ex_upstream_state] = None
   \<and> 0 < counters_upstreams ex_upstream_state
   \<and> upstream_is_free ex_upstream_state 0
   \<and> fst (findUpstreamID ''8.8.8.8'' 53 ex_upstream_state) = 1
   \<and> \<not> lowest_dead_or_count (upstream_is_free ex_upstream_state)
          (counters_upstreams ex_upstream_state)
          (fst (findUpstreamID ''8.8.8.8'' 53 ex_upstream_state))"
  by code_simp

text \<open>
  Claim C3, amended. For domains, clients and cache entries, a find-or-create miss that
  allocates returns the lowest index of \<open>[0, count)\<close> whose tag is unset if there is
  one, and otherwise the count, which it then advances by one. For upstream servers a
  miss always returns the count and advances it; dead slots are not looked for.
\<close>

theorem C3_allocation:
  "(domain_scan s domainString = None \<and> fst (findDomainID now domainString cnt s) \<noteq> -1
    \<longrightarrow> lowest_dead_or_count (domain_is_free s) (counters_domains s)
          (fst (findDomainID now domainString cnt s))
        \<and> ((\<forall>i\<in>set [0..<counters_domains s]. \<not> domain_is_free s i)
             \<longrightarrow> counters_domains (snd (findDomainID now domainString cnt s))
                 = counters_domains s + 1))
   \<and> (client_scan s clientIP = None \<and> (cnt \<or> aliasclient)
      \<and> findClientID tnow clientIP cnt aliasclient s = Some (r, s') \<and> r \<noteq> -1
    \<longrightarrow> lowest_dead_or_count (client_is_free s) (counters_clients s) r
        \<and> ((\<forall>i\<in>set [0..<counters_clients s]. \<not> client_is_free s i)
             \<longrightarrow> counters_clients s' = counters_clients s + 1))
   \<and> (find (cache_hit s domainID clientID query_type) [0..<counters_dns_cache_size s] = None
      \<and> create_new \<and> fst (findCacheID domainID clientID query_type create_new s) \<noteq> -1
    \<longrightarrow> lowest_dead_or_count (cache_is_free s) (counters_dns_cache_size s)
          (fst (findCacheID domainID clientID query_type create_new s))
        \<and> ((\<forall>i\<in>set [0..<counters_dns_cache_size s]. \<not> cache_is_free s i)
             \<longrightarrow> counters_dns_cache_size (snd (findCacheID domainID clientID query_type create_new s))
                 = counters_dns_cache_size s + 1))
   \<and> (find (upstream_hit s upstreamString port) [0..<counters_upstreams s] = None
      \<and> fst (findUpstreamID upstreamString port s) \<noteq> -1
    \<longrightarrow> fst (findUpstreamID upstreamString port s) = int (counters_upstreams s)
        \<and> counters_upstreams (snd (findUpstreamID upstreamString port s))
            = counters_upstreams s + 1)"
  by (intro conjI alloc_domains alloc_clients alloc_cache alloc_upstreams)

theorem C3_witness:
  "fst (findDomainID 0 ''b.com'' True ex_reuse_state) = 1
   \<and> lowest_dead_or_count (domain_is_free ex_reuse_state) (counters_domains ex_reuse_state)
        (fst (findDomainID 0 ''b.com'' True ex_reuse_state))
   \<and> lowest_dead_or_count (client_is_free ex_reuse_state) (counters_clients ex_reuse_state) 1
   \<and> lowest_dead_or_count (cache_is_free ex_reuse_state) (counters_dns_cache_size ex_reuse_state)
        (fst (findCacheID 4 5 1 True ex_reuse_state))
   \<and> fst (findUpstreamID ''8.8.8.8'' 53 ex_reuse_state) = 0
   \<and> counters_upstreams (snd (findUpstreamID ''8.8.8.8'' 53 ex_reuse_state)) = 1"
proof -
  have d: "domain_scan ex_reuse_state ''b.com'' = None
           \<and> fst (findDomainID 0 ''b.com'' True ex_reuse_state) \<noteq> -1"
    by code_simp
  have d1: "fst (findDomainID 0 ''b.com'' True ex_reuse_state) = 1"
    by code_simp
  have c: "client_scan ex_reuse_state ''10.0.0.2'' = None \<and> (True \<or> False)
           \<and> findClientID 0 ''10.0.0.2'' True False ex_reuse_state
               = Some (1, snd (the (findClientID 0 ''10.0.0.2'' True False ex_reuse_state)))
           \<and> (1::int) \<noteq> -1"
    by code_simp
  have k: "find (cache_hit ex_reuse_state 4 5 1) [0..<counters_dns_cache_size ex_reuse_state] = None
           \<and> True \<and> fst (findCacheID 4 5 1 True ex_reuse_state) \<noteq> -1"
    by code_simp
  have u: "find (upstream_hit ex_reuse_state ''8.8.8.8'' 53) [0..<counters_upstreams ex_reuse_state] = None
           \<and> fst (findUpstreamID ''8.8.8.8'' 53 ex_reuse_state) \<noteq> -1"
    by code_simp
  have u0: "int (counters_upstreams ex_reuse_state) = 0" "counters_upstreams ex_reuse_state + 1 = 1"
    by (simp_all add: ex_reuse_state_def fresh_state_def)
  note t = C3_allocation [of ex_reuse_state "''b.com''" 0 True "''10.0.0.2''" False 0 1
      "snd (the (findClientID 0 ''10.0.0.2'' True False ex_reuse_state))" 4 5 1 True "''8.8.8.8''" 53]
  from d t [THEN conjunct1]
  have 1: "lowest_dead_or_count (domain_is_free ex_reuse_state) (counters_domains ex_reuse_state)
        (fst (findDomainID 0 ''b.com'' True ex_reuse_state))" by blast
  from c t [THEN conjunct2, THEN conjunct1]
  have 2: "lowest_dead_or_count (client_is_free ex_reuse_state) (counters_clients ex_reuse_state) 1"
    by blast
  from k t [THEN conjunct2, THEN conjunct2, THEN conjunct1]
  have 3: "lowest_dead_or_count (cache_is_free ex_reuse_state) (counters_dns_cache_size ex_reuse_state)
        (fst (findCacheID 4 5 1 True ex_reuse_state))" by blast
  from u t [THEN conjunct2, THEN conjunct2, THEN conjunct2]
  have 4: "fst (findUpstreamID ''8.8.8.8'' 53 ex_reuse_state) = int (counters_upstreams ex_reuse_state)
       \<and> counters_upstreams (snd (findUpstreamID ''8.8.8.8'' 53 ex_reuse_state))
            = counters_upstreams ex_reuse_state + 1" by blast
  from d1 1 2 3 4 u0 show ?thesis by simp
qed

section \<open>Domain identities\<close>

lemma domain_hit_iff:
  "domain_hit s h D i
   = (i < length (domains s) \<and> d_domainhash (domains s ! i) = h \<and> d_domainpos (domains s ! i) = D)"
  by (auto simp: domain_hit_def getDomain_def)

lemma domain_is_free_iff:
  "domain_is_free s i = (i < length (domains s) \<and> d_magic (domains s ! i) = 0)"
  by (auto simp: domain_is_free_def getDomain_def)

lemma domain_scan_Some_iff:
  "(domain_scan s D = Some i)
   = (i < counters_domains s \<and> domain_hit s (hashStr D) D i
      \<and> (\<forall>j<i. \<not> domain_hit s (hashStr D) D j))"
  by (simp add: domain_scan_def find_upt_Some_iff)

lemma domain_scan_None_iff:
  "(domain_scan s D = None) = (\<forall>i<counters_domains s. \<not> domain_hit s (hashStr D) D i)"
  by (simp add: domain_scan_def find_upt_None_iff)

lemma get_next_free_domainID_cases:
  "(get_next_free_domainID s < counters_domains s \<and> domain_is_free s (get_next_free_domainID s))
   \<or> get_next_free_domainID s = counters_domains s"
  by (auto simp: get_next_free_domainID_def find_upt_Some_iff split: option.splits)

lemma get_next_free_domainID_le: "get_next_free_domainID s \<le> counters_domains s"
  using get_next_free_domainID_cases [of s] by auto

text \<open>The three outcomes of a call.\<close>

lemma findDomainID_hit:
  assumes "domain_scan s X = Some j"
  shows "fst (findDomainID now X c s) = int j"
    and "counters_domains (snd (findDomainID now X c s)) = counters_domains s"
    and "length (domains (snd (findDomainID now X c s))) = length (domains s)"
    and "d_magic (domains (snd (findDomainID now X c s)) ! k) = d_magic (domains s ! k)"
    and "d_domainhash (domains (snd (findDomainID now X c s)) ! k) = d_domainhash (domains s ! k)"
    and "d_domainpos (domains (snd (findDomainID now X c s)) ! k) = d_domainpos (domains s ! k)"
  using assms by (auto simp: findDomainID_def nth_list_update_any)

lemma findDomainID_nomem:
  assumes "domain_scan s X = None" and "length (domains s) \<le> get_next_free_domainID s"
  shows "fst (findDomainID now X c s) = -1"
    and "counters_domains (snd (findDomainID now X c s)) = counters_domains s"
    and "domains (snd (findDomainID now X c s)) = domains s"
  using assms by (auto simp: findDomainID_def getDomain_def Let_def)

lemma findDomainID_create:
  assumes "domain_scan s X = None" and "get_next_free_domainID s < length (domains s)"
  shows "fst (findDomainID now X c s) = int (get_next_free_domainID s)"
    and "counters_domains (snd (findDomainID now X c s)) = counters_domains s + 1"
    and "length (domains (snd (findDomainID now X c s))) = length (domains s)"
    and "k \<noteq> get_next_free_domainID s
         \<Longrightarrow> domains (snd (findDomainID now X c s)) ! k = domains s ! k"
    and "d_magic (domains (snd (findDomainID now X c s)) ! get_next_free_domainID s) = MAGICBYTE"
    and "d_domainhash (domains (snd (findDomainID now X c s)) ! get_next_free_domainID s) = hashStr X"
    and "d_domainpos (domains (snd (findDomainID now X c s)) ! get_next_free_domainID s) = X"
  using assms by (auto simp: findDomainID_def getDomain_def Let_def)

lemma domain_hit_same_domains:
  "domains s' = domains s \<Longrightarrow> domain_hit s' h D = domain_hit s h D"
  by (rule ext) (simp add: domain_hit_iff)

lemma domain_scan_same_domains:
  assumes "domains s' = domains s" and "counters_domains s' = counters_domains s"
  shows "domain_scan s' D = domain_scan s D"
  unfolding domain_scan_def Let_def
  by (simp add: domain_hit_same_domains [OF assms(1)] assms(2))

lemma domain_hit_hit_state:
  assumes "domain_scan s X = Some j"
  shows "domain_hit (snd (findDomainID now X c s)) h D = domain_hit s h D"
  by (rule ext) (simp add: domain_hit_iff findDomainID_hit [OF assms])

lemma domain_scan_hit_state:
  assumes "domain_scan s X = Some j"
  shows "domain_scan (snd (findDomainID now X c s)) D = domain_scan s D"
  unfolding domain_scan_def Let_def
  by (simp add: findDomainID_hit(2) [OF assms] domain_hit_hit_state [OF assms])

lemma domain_resolves_preserved:
  assumes K: "domain_resolves s D i"
  shows "domain_resolves (snd (findDomainID now X c s)) D i"
proof (cases "domain_scan s X")
  case (Some j)
  with K show ?thesis
    by (simp add: domain_resolves_def findDomainID_hit [OF Some] domain_scan_hit_state [OF Some])
next
  case None
  show ?thesis
  proof (cases "get_next_free_domainID s < length (domains s)")
    case False
    then have "length (domains s) \<le> get_next_free_domainID s" by simp
    note nm = findDomainID_nomem(2,3) [OF None this, where now = now and c = c]
    from K show ?thesis
      by (simp add: domain_resolves_def domain_scan_same_domains [OF nm(2) nm(1)] nm(2))
  next
    case True
    let ?k = "get_next_free_domainID s"
    let ?s' = "snd (findDomainID now X c s)"
    note cr = findDomainID_create [OF None True, where now = now and c = c]
    from K have i: "i < length (domains s)" "d_magic (domains s ! i) = MAGICBYTE"
      and sc: "domain_scan s D = Some i"
      by (simp_all add: domain_resolves_def)
    from sc have ic: "i < counters_domains s" and hit: "domain_hit s (hashStr D) D i"
      and first: "\<forall>j<i. \<not> domain_hit s (hashStr D) D j"
      by (simp_all add: domain_scan_Some_iff)
    from sc None have XD: "X \<noteq> D" by auto
    have ki: "?k \<noteq> i"
      using get_next_free_domainID_cases [of s] i ic MAGICBYTE_nonzero
      by (auto simp: domain_is_free_iff)
    have same: "domains ?s' ! i = domains s ! i"
      using cr(4) [of i] ki by simp
    have hit': "domain_hit ?s' (hashStr D) D i"
      using hit same cr(3) by (simp add: domain_hit_iff)
    have first': "\<forall>j<i. \<not> domain_hit ?s' (hashStr D) D j"
    proof (intro allI impI)
      fix j assume "j < i"
      show "\<not> domain_hit ?s' (hashStr D) D j"
      proof (cases "j = ?k")
        case True
        then show ?thesis using cr(7) XD by (simp add: domain_hit_iff)
      next
        case False
        then show ?thesis
          using first \<open>j < i\<close> cr(4) [of j] cr(3) by (simp add: domain_hit_iff)
      qed
    qed
    have "domain_scan ?s' D = Some i"
      using hit' first' ic cr(2) by (simp add: domain_scan_Some_iff)
    then show ?thesis
      using i same cr(3) by (simp add: domain_resolves_def)
  qed
qed

lemma domain_resolves_result:
  assumes K: "domain_resolves s D i"
  shows "(fst (findDomainID now X c s) = int i) = (X = D)"
proof (cases "X = D")
  case True
  with K show ?thesis
    by (simp add: domain_resolves_def findDomainID_hit(1))
next
  case XD: False
  from K have i: "i < length (domains s)" "d_magic (domains s ! i) = MAGICBYTE"
    and sc: "domain_scan s D = Some i"
    by (simp_all add: domain_resolves_def)
  from sc have ic: "i < counters_domains s" and hit: "domain_hit s (hashStr D) D i"
    by (simp_all add: domain_scan_Some_iff)
  have "fst (findDomainID now X c s) \<noteq> int i"
  proof (cases "domain_scan s X")
    case (Some j)
    then have "domain_hit s (hashStr X) X j" by (simp add: domain_scan_Some_iff)
    with hit XD have "j \<noteq> i" by (auto simp: domain_hit_iff)
    then show ?thesis by (simp add: findDomainID_hit(1) [OF Some])
  next
    case None
    show ?thesis
    proof (cases "get_next_free_domainID s < length (domains s)")
      case False
      then have "length (domains s) \<le> get_next_free_domainID s" by simp
      from findDomainID_nomem(1) [OF None this, where now = now and c = c] show ?thesis by simp
    next
      case True
      have "get_next_free_domainID s \<noteq> i"
        using get_next_free_domainID_cases [of s] i ic MAGICBYTE_nonzero
        by (auto simp: domain_is_free_iff)
      then show ?thesis by (simp add: findDomainID_create(1) [OF None True])
    qed
  qed
  with XD show ?thesis by simp
qed

lemma domain_resolves_established:
  assumes call: "findDomainID now D c s = (id1, s1)" and live: "domain_live s1 id1"
  shows "0 \<le> id1 \<and> domain_resolves s1 D (nat id1)"
proof (cases "domain_scan s D")
  case (Some j)
  from findDomainID_hit(1) [OF Some, where now = now and c = c] call have id: "id1 = int j" by simp
  from call have s1: "s1 = snd (findDomainID now D c s)" by simp
  have "domain_scan s1 D = Some j"
    unfolding s1 using Some by (simp add: domain_scan_hit_state [OF Some])
  with live id show ?thesis
    by (simp add: domain_resolves_def domain_live_def)
next
  case None
  from call have s1: "s1 = snd (findDomainID now D c s)"
    and r: "id1 = fst (findDomainID now D c s)" by simp_all
  show ?thesis
  proof (cases "get_next_free_domainID s < length (domains s)")
    case False
    then have "length (domains s) \<le> get_next_free_domainID s" by simp
    from findDomainID_nomem(1) [OF None this, where now = now and c = c] r live show ?thesis
      by (simp add: domain_live_def)
  next
    case True
    let ?k = "get_next_free_domainID s"
    note cr = findDomainID_create [OF None True, where now = now and c = c]
    have id: "id1 = int ?k" using r cr(1) by simp
    have hit: "domain_hit s1 (hashStr D) D ?k"
      unfolding s1 using cr(3,6,7) True by (simp add: domain_hit_iff)
    have first: "\<forall>j<?k. \<not> domain_hit s1 (hashStr D) D j"
    proof (intro allI impI)
      fix j assume jk: "j < ?k"
      then have "j < counters_domains s" using get_next_free_domainID_le [of s] by simp
      with None have "\<not> domain_hit s (hashStr D) D j" by (simp add: domain_scan_None_iff)
      then show "\<not> domain_hit s1 (hashStr D) D j"
        unfolding s1 using cr(4) [of j] cr(3) jk by (simp add: domain_hit_iff)
    qed
    have "domain_scan s1 D = Some ?k"
      using hit first get_next_free_domainID_le [of s] cr(2)
      by (simp add: domain_scan_Some_iff s1)
    with live id show ?thesis
      by (simp add: domain_resolves_def domain_live_def)
  qed
qed

lemma domain_resolves_run:
  "domain_resolves s D i \<Longrightarrow> domain_resolves (run_findDomainID cs s) D i"
proof (induction cs arbitrary: s)
  case Nil
  then show ?case by simp
next
  case (Cons call cs)
  obtain now X c where call: "call = (now, X, c)" by (cases call)
  from Cons.prems have "domain_resolves (snd (findDomainID now X c s)) D i"
    by (rule domain_resolves_preserved)
  then show ?case using Cons.IH call by simp
qed

lemma findDomainID_create_live:
  assumes "domain_scan s X = None" and "fst (findDomainID now X c s) \<noteq> -1"
  shows "domain_live (snd (findDomainID now X c s)) (fst (findDomainID now X c s))"
proof (cases "get_next_free_domainID s < length (domains s)")
  case True
  from findDomainID_create(1,3,5) [OF assms(1) True, where now = now and c = c] True
  show ?thesis by (simp add: domain_live_def)
next
  case False
  then have "length (domains s) \<le> get_next_free_domainID s" by simp
  from findDomainID_nomem(1) [OF assms(1) this, where now = now and c = c] assms(2)
  show ?thesis by simp
qed

text \<open>
  Claim C7. Let a find-or-create call for the name \<open>D1\<close> return \<open>id1\<close> with the slot
  \<open>id1\<close> live after the call, and let any sequence of further find-or-create calls
  follow. Then the slot \<open>id1\<close> is still live, and a call for a name \<open>D2\<close> returns
  \<open>id1\<close> exactly when \<open>D2 = D1\<close>: a different name never receives the ID, whatever
  the hashes of the two names are, and the same name receives it again. (The scan of
  \<^verbatim>\<open>_findDomainID\<close> does not look at the liveness tag, hence the hypothesis that the
  slot returned for \<open>D1\<close> is live; it holds whenever the call creates the record.)
\<close>

theorem C7_domain_ids:
  assumes "findDomainID now1 D1 c1 s = (id1, s1)"
    and "domain_live s1 id1"
    and "findDomainID now2 D2 c2 (run_findDomainID cs s1) = (id2, s2)"
  shows "(id2 = id1) = (D2 = D1) \<and> domain_live (run_findDomainID cs s1) id1"
proof -
  from domain_resolves_established [OF assms(1,2)]
  have pos: "0 \<le> id1" and K: "domain_resolves s1 D1 (nat id1)" by simp_all
  from K have K': "domain_resolves (run_findDomainID cs s1) D1 (nat id1)"
    by (rule domain_resolves_run)
  from domain_resolves_result [OF K', where now = now2 and X = D2 and c = c2] assms(3) pos
  have "(id2 = id1) = (D2 = D1)" by simp
  moreover from K' pos have "domain_live (run_findDomainID cs s1) id1"
    by (auto simp: domain_resolves_def domain_live_def)
  ultimately show ?thesis by simp
qed

theorem C7_witness:
  "domain_live (snd (findDomainID 0 ''a.com'' True (fresh_state 2 1))) 0
   \<and> fst (findDomainID 1 ''a.com'' False
        (run_findDomainID [(0, ''b.com'', True)]
           (snd (findDomainID 0 ''a.com'' True (fresh_state 2 1))))) = 0
   \<and> fst (findDomainID 1 ''b.com'' False
        (run_findDomainID [(0, ''b.com'', True)]
           (snd (findDomainID 0 ''a.com'' True (fresh_state 2 1))))) \<noteq> 0"
proof -
  let ?s1 = "snd (findDomainID 0 ''a.com'' True (fresh_state 2 1))"
  let ?s2 = "run_findDomainID [(0, ''b.com'', True)] ?s1"
  have f: "fst (findDomainID 0 ''a.com'' True (fresh_state 2 1)) = 0"
    by code_simp
  have h1: "findDomainID 0 ''a.com'' True (fresh_state 2 1) = (0, ?s1)"
    using f by (simp add: prod_eq_iff)
  have h2: "domain_live ?s1 0"
    by code_simp
  have h3: "findDomainID 1 ''a.com'' False ?s2
            = (fst (findDomainID 1 ''a.com'' False ?s2), snd (findDomainID 1 ''a.com'' False ?s2))"
    and h4: "findDomainID 1 ''b.com'' False ?s2
            = (fst (findDomainID 1 ''b.com'' False ?s2), snd (findDomainID 1 ''b.com'' False ?s2))"
    by simp_all
  have ne: "''b.com'' \<noteq> ''a.com''" by simp
  from C7_domain_ids [OF h1 h2 h3] C7_domain_ids [OF h1 h2 h4] h2 ne
  show ?thesis by simp
qed

text \<open>
  The data-model invariant on the stored hashes is an invariant of the domain resolver: it
  holds at start-up and every call of \<^verbatim>\<open>_findDomainID\<close> preserves it.
\<close>

lemma domain_hashes_stored_iff:
  "domain_hashes_stored s
   = (\<forall>i<length (domains s). d_domainhash (domains s ! i) = hashStr (d_domainpos (domains s ! i)))"
  by (simp add: domain_hashes_stored_def list_all_length)

lemma hashStr_empty: "hashStr [] = 0"
  by (simp add: hashStr_def)

lemma domain_hashes_stored_fresh: "domain_hashes_stored (fresh_state cap slots)"
  by (simp add: domain_hashes_stored_iff fresh_state_def zero_domain_def hashStr_empty)

lemma domain_hashes_stored_preserved:
  assumes "domain_hashes_stored s"
  shows "domain_hashes_stored (snd (findDomainID now X c s))"
proof (cases "domain_scan s X")
  case (Some j)
  with assms show ?thesis
    by (simp add: domain_hashes_stored_iff findDomainID_hit [OF Some])
next
  case None
  show ?thesis
  proof (cases "get_next_free_domainID s < length (domains s)")
    case False
    then have "length (domains s) \<le> get_next_free_domainID s" by simp
    from findDomainID_nomem(3) [OF None this, where now = now and c = c] assms show ?thesis
      by (simp add: domain_hashes_stored_def)
  next
    case True
    note cr = findDomainID_create [OF None True, where now = now and c = c]
    show ?thesis
      unfolding domain_hashes_stored_iff
    proof (intro allI impI)
      fix i assume "i < length (domains (snd (findDomainID now X c s)))"
      then have i: "i < length (domains s)" by (simp add: cr(3))
      show "d_domainhash (domains (snd (findDomainID now X c s)) ! i)
            = hashStr (d_domainpos (domains (snd (findDomainID now X c s)) ! i))"
      proof (cases "i = get_next_free_domainID s")
        case True
        then show ?thesis by (simp add: cr(6,7))
      next
        case False
        with assms i show ?thesis by (simp add: cr(4) domain_hashes_stored_iff)
      qed
    qed
  qed
qed

section \<open>Client counts over repeated lookups\<close>

lemma client_hit_iff:
  "client_hit s clientIP i
   = (i < length (clients s) \<and> c_magic (clients s ! i) = MAGICBYTE
      \<and> c_ippos (clients s ! i) = clientIP)"
  by (auto simp: client_hit_def getClient_def Let_def)

lemma client_is_free_iff:
  "client_is_free s i = (i < length (clients s) \<and> c_magic (clients s ! i) = 0)"
  by (auto simp: client_is_free_def getClient_def)

lemma get_next_free_clientID_le: "get_next_free_clientID s \<le> counters_clients s"
  by (auto simp: get_next_free_clientID_def find_upt_Some_iff split: option.splits)

lemma findClientID_first_call:
  assumes miss: "client_scan s clientIP = None"
    and cap: "get_next_free_clientID s < length (clients s)"
  shows "\<exists>s'. findClientID now clientIP True False s = Some (int (get_next_free_clientID s), s')
           \<and> client_counted s' clientIP (get_next_free_clientID s) 1"
proof -
  let ?k = "get_next_free_clientID s"
  define new where "new = (clients s ! ?k)
     \<lparr>c_magic := MAGICBYTE, c_count := 1, c_blockedcount := 0, c_ippos := clientIP,
      c_flags_new := True, c_namepos := [], c_lastQuery := 0, c_numQueriesARP := 1,
      c_flags_found_group := False, c_groupspos := [], c_reread_groups := 0,
      c_firstSeen := now, c_ifacepos := [], c_hwlen := -1,
      c_hwaddr := replicate (length (c_hwaddr (clients s ! ?k))) 0,
      c_flags_aliasclient := False, c_aliasclient_id := -1,
      c_overTime := replicate (OVERTIME_SLOTS s) 0, c_id := int ?k\<rparr>"
  define s' where "s' = s\<lparr>clients := (clients s)[?k := new],
      event_RESOLVE_NEW_HOSTNAMES := True, counters_clients := counters_clients s + 1\<rparr>"
  have call: "findClientID now clientIP True False s = Some (int ?k, s')"
    using miss cap by (simp add: findClientID_def getClient_def Let_def s'_def new_def)
  have hit: "client_hit s' clientIP ?k"
    using cap by (simp add: client_hit_iff s'_def new_def)
  have first: "\<forall>j<?k. \<not> client_hit s' clientIP j"
  proof (intro allI impI)
    fix j assume jk: "j < ?k"
    then have "j < counters_clients s" using get_next_free_clientID_le [of s] by simp
    with miss have "\<not> client_hit s clientIP j"
      by (simp add: client_scan_def find_upt_None_iff)
    with jk show "\<not> client_hit s' clientIP j"
      by (simp add: client_hit_iff s'_def)
  qed
  have cnt': "counters_clients s' = counters_clients s + 1"
    by (simp add: s'_def)
  have "client_scan s' clientIP = Some ?k"
    unfolding client_scan_def find_upt_Some_iff
    using hit first get_next_free_clientID_le [of s] cnt' by simp
  then have "client_counted s' clientIP ?k 1"
    using cap by (simp add: client_counted_def s'_def new_def OVERTIME_SLOTS_def)
  with call show ?thesis by blast
qed

lemma findClientID_next_call:
  assumes K: "client_counted s clientIP i n"
  shows "\<exists>s'. findClientID now clientIP True False s = Some (int i, s')
           \<and> client_counted s' clientIP i (n + 1)"
proof -
  from K have sc: "client_scan s clientIP = Some i" and i: "i < length (clients s)"
    and cnt: "c_count (clients s ! i) = n"
    and na: "\<not> c_flags_aliasclient (clients s ! i)" "c_aliasclient_id (clients s ! i) = -1"
    and ot: "c_overTime (clients s ! i) = replicate (OVERTIME_SLOTS s) 0"
    by (simp_all add: client_counted_def)
  define s' where "s' = s\<lparr>clients := (clients s)[i := (clients s ! i)
      \<lparr>c_count := c_count (clients s ! i) + 1,
       c_blockedcount := c_blockedcount (clients s ! i) + 0\<rparr>],
     overTime := overTime s\<rparr>"
  have cc: "change_clientcount i 1 0 (-1) 0 s = Some s'"
    using i na by (simp add: change_clientcount_def Let_def s'_def)
  have call: "findClientID now clientIP True False s = Some (int i, s')"
    using sc cc by (simp add: findClientID_def)
  have "client_hit s' clientIP = client_hit s clientIP"
    by (rule ext) (simp add: client_hit_iff s'_def nth_list_update_any)
  moreover have "counters_clients s' = counters_clients s"
    by (simp add: s'_def)
  ultimately have "client_scan s' clientIP = Some i"
    using sc by (simp add: client_scan_def)
  then have "client_counted s' clientIP i (n + 1)"
    using i cnt na ot by (simp add: client_counted_def s'_def OVERTIME_SLOTS_def)
  with call show ?thesis by blast
qed

lemma findClientID_times_counted:
  "client_counted s clientIP i n
   \<Longrightarrow> \<exists>s'. findClientID_times m now clientIP s = Some (replicate m (int i), s')
            \<and> client_counted s' clientIP i (n + int m)"
proof (induction m arbitrary: s n)
  case 0
  then show ?case by simp
next
  case (Suc m)
  from findClientID_next_call [OF Suc.prems, of now]
  obtain s1 where c1: "findClientID now clientIP True False s = Some (int i, s1)"
    and K1: "client_counted s1 clientIP i (n + 1)" by blast
  from Suc.IH [OF K1]
  obtain s2 where c2: "findClientID_times m now clientIP s1 = Some (replicate m (int i), s2)"
    and K2: "client_counted s2 clientIP i (n + 1 + int m)" by blast
  from c1 c2 K2 show ?case by (simp add: add.commute add.left_commute)
qed

text \<open>
  Claim C6, as stated, fails in its second half: \<^verbatim>\<open>_findClientID\<close> passes the bucket
  index \<open>-1\<close> to \<^verbatim>\<open>change_clientcount\<close> and zeroes the time series on creation, so the
  time series of the client sums to 0, not to the number of calls. After two calls from the
  start-up state the count is 2 and the sum is 0.
\<close>

theorem C6_counterexample:
  "findClientID_times 2 0 ''192.168.0.1'' (fresh_state 1 2) \<noteq> None
   \<and> fst (the (findClientID_times 2 0 ''192.168.0.1'' (fresh_state 1 2))) = [0, 0]
   \<and> c_count (clients (snd (the (findClientID_times 2 0 ''192.168.0.1'' (fresh_state 1 2)))) ! 0) = 2
   \<and> sum_list (c_overTime
        (clients (snd (the (findClientID_times 2 0 ''192.168.0.1'' (fresh_state 1 2)))) ! 0)) = 0"
  by code_simp

text \<open>
  Claim C6, amended. For an address no live client record holds, and with a slot
  available, \<open>N \<ge> 1\<close> calls of the client find-or-create operation with counting
  requested and not as alias-client all return the same ID, leave the count of that client
  at \<open>N\<close>, and leave its per-bucket time series at zero in every bucket (sum 0): the
  time series is not written by find-or-create.
\<close>

theorem C6_client_count:
  assumes "client_scan s clientIP = None"
    and "get_next_free_clientID s < length (clients s)"
    and "1 \<le> N"
  shows "\<exists>s'. findClientID_times N now clientIP s
               = Some (replicate N (int (get_next_free_clientID s)), s')
           \<and> c_count (clients s' ! get_next_free_clientID s) = int N
           \<and> c_overTime (clients s' ! get_next_free_clientID s) = replicate (OVERTIME_SLOTS s') 0
           \<and> sum_list (c_overTime (clients s' ! get_next_free_clientID s)) = 0"
proof -
  let ?k = "get_next_free_clientID s"
  from assms(3) obtain m where N: "N = Suc m" by (cases N) auto
  from findClientID_first_call [OF assms(1,2), of now]
  obtain s1 where c1: "findClientID now clientIP True False s = Some (int ?k, s1)"
    and K1: "client_counted s1 clientIP ?k 1" by blast
  from findClientID_times_counted [OF K1, of m now]
  obtain s2 where c2: "findClientID_times m now clientIP s1 = Some (replicate m (int ?k), s2)"
    and K2: "client_counted s2 clientIP ?k (1 + int m)" by blast
  from c1 c2 have "findClientID_times N now clientIP s = Some (replicate N (int ?k), s2)"
    by (simp add: N)
  moreover from K2 have "c_count (clients s2 ! ?k) = int N"
    "c_overTime (clients s2 ! ?k) = replicate (OVERTIME_SLOTS s2) 0"
    by (simp_all add: client_counted_def N)
  ultimately show ?thesis by (simp add: sum_list_replicate)
qed

theorem C6_witness:
  "client_scan (fresh_state 1 2) ''192.168.0.1'' = None
   \<and> get_next_free_clientID (fresh_state 1 2) < length (clients (fresh_state 1 2))
   \<and> (\<exists>s'. findClientID_times 3 0 ''192.168.0.1'' (fresh_state 1 2) = Some ([0, 0, 0], s')
          \<and> c_count (clients s' ! 0) = 3 \<and> sum_list (c_overTime (clients s' ! 0)) = 0)"
proof -
  have h1: "client_scan (fresh_state 1 2) ''192.168.0.1'' = None"
    and h2: "get_next_free_clientID (fresh_state 1 2) < length (clients (fresh_state 1 2))"
    and h3: "(1::nat) \<le> 3"
    and k: "get_next_free_clientID (fresh_state 1 2) = 0"
    by code_simp+
  from C6_client_count [OF h1 h2 h3, of 0] h1 h2 k
  show ?thesis by (auto simp: numeral_3_eq_3)
qed

section \<open>Consistency of the aggregate counters\<close>

lemma sum_list_update_int:
  fixes xs :: "int list"
  shows "i < length xs \<Longrightarrow> sum_list (xs[i := v]) = sum_list xs - xs ! i + v"
proof (induction xs arbitrary: i)
  case Nil
  then show ?case by simp
next
  case (Cons x xs)
  then show ?case by (cases i) auto
qed

lemma query_set_status_unchanged:
  assumes "queryID < length (queries s)" and "q_status (queries s ! queryID) = new_status"
  shows "query_set_status g queryID new_status False s = Some s"
  using assms by (simp add: query_set_status_def Let_def)

lemma query_set_status_effect:
  assumes q: "queryID < length (queries s)"
    and st: "new_status < QUERY_STATUS_MAX"
    and len: "length (counters_status s) = QUERY_STATUS_MAX"
    and old: "init \<or> q_status (queries s ! queryID) < QUERY_STATUS_MAX"
    and t: "g (q_timestamp (queries s ! queryID)) < length (overTime s)"
    and chg: "init \<or> q_status (queries s ! queryID) \<noteq> new_status"
  shows "\<exists>s'. query_set_status g queryID new_status init s = Some s'
     \<and> queries s' = (queries s)[queryID := (queries s ! queryID)\<lparr>q_status := new_status\<rparr>]
     \<and> length (counters_status s') = QUERY_STATUS_MAX
     \<and> sum_list (counters_status s') = sum_list (counters_status s) + (if init then 1 else 0)
     \<and> length (overTime s') = length (overTime s)
     \<and> (\<forall>b. b \<noteq> g (q_timestamp (queries s ! queryID)) \<longrightarrow> overTime s' ! b = overTime s ! b)
     \<and> ot_blocked (overTime s' ! g (q_timestamp (queries s ! queryID)))
         = ot_blocked (overTime s ! g (q_timestamp (queries s ! queryID)))
           - (if is_blocked (q_status (queries s ! queryID)) \<and> \<not> init then 1 else 0)
           + (if is_blocked new_status then 1 else 0)
     \<and> ot_cached (overTime s' ! g (q_timestamp (queries s ! queryID)))
         = ot_cached (overTime s ! g (q_timestamp (queries s ! queryID)))
           - (if is_cached (q_status (queries s ! queryID)) \<and> \<not> init then 1 else 0)
           + (if is_cached new_status then 1 else 0)
     \<and> ot_forwarded (overTime s' ! g (q_timestamp (queries s ! queryID)))
         = ot_forwarded (overTime s ! g (q_timestamp (queries s ! queryID)))
           - (if q_status (queries s ! queryID) = QUERY_FORWARDED \<and> \<not> init then 1 else 0)
           + (if new_status = QUERY_FORWARDED then 1 else 0)"
proof -
  let ?old = "q_status (queries s ! queryID)"
  let ?t = "g (q_timestamp (queries s ! queryID))"
  define status1 where "status1 = (if \<not> init
     then (counters_status s)[?old := counters_status s ! ?old - 1] else counters_status s)"
  define status2 where "status2 = status1[new_status := status1 ! new_status + 1]"
  have l1: "length status1 = QUERY_STATUS_MAX" by (simp add: status1_def len)
  have s1: "sum_list status1 = sum_list (counters_status s) - (if init then 0 else 1)"
    using old len by (auto simp: status1_def sum_list_update_int)
  have s2: "sum_list status2 = sum_list (counters_status s) + (if init then 1 else 0)"
    using st l1 s1 by (auto simp: status2_def sum_list_update_int)
  have l2: "length status2 = QUERY_STATUS_MAX" by (simp add: status2_def l1)
  define ot1 where "ot1 = (if is_blocked ?old \<and> \<not> init
     then (overTime s ! ?t)\<lparr>ot_blocked := ot_blocked (overTime s ! ?t) - 1\<rparr> else overTime s ! ?t)"
  define ot2 where "ot2 = (if is_blocked new_status
     then ot1\<lparr>ot_blocked := ot_blocked ot1 + 1\<rparr> else ot1)"
  define ot3 where "ot3 = (if (?old = QUERY_CACHE \<or> ?old = QUERY_CACHE_STALE) \<and> \<not> init
     then ot2\<lparr>ot_cached := ot_cached ot2 - 1\<rparr> else ot2)"
  define ot4 where "ot4 = (if new_status = QUERY_CACHE \<or> new_status = QUERY_CACHE_STALE
     then ot3\<lparr>ot_cached := ot_cached ot3 + 1\<rparr> else ot3)"
  define ot5 where "ot5 = (if ?old = QUERY_FORWARDED \<and> \<not> init
     then ot4\<lparr>ot_forwarded := ot_forwarded ot4 - 1\<rparr> else ot4)"
  define ot6 where "ot6 = (if new_status = QUERY_FORWARDED
     then ot5\<lparr>ot_forwarded := ot_forwarded ot5 + 1\<rparr> else ot5)"
  define s' where "s' = s\<lparr>counters_status := status2,
     overTime := (overTime s)[?t := ot6],
     queries := (queries s)[queryID := (queries s ! queryID)\<lparr>q_status := new_status\<rparr>]\<rparr>"
  have call: "query_set_status g queryID new_status init s = Some s'"
    using q st len old t chg
    unfolding query_set_status_def Let_def s'_def ot6_def ot5_def ot4_def ot3_def ot2_def
      ot1_def status2_def status1_def
    by auto
  have b: "ot_blocked ot6 = ot_blocked (overTime s ! ?t)
            - (if is_blocked ?old \<and> \<not> init then 1 else 0) + (if is_blocked new_status then 1 else 0)"
    by (simp add: ot6_def ot5_def ot4_def ot3_def ot2_def ot1_def)
  have c: "ot_cached ot6 = ot_cached (overTime s ! ?t)
            - (if is_cached ?old \<and> \<not> init then 1 else 0) + (if is_cached new_status then 1 else 0)"
    by (simp add: ot6_def ot5_def ot4_def ot3_def ot2_def ot1_def is_cached_def)
  have f: "ot_forwarded ot6 = ot_forwarded (overTime s ! ?t)
            - (if ?old = QUERY_FORWARDED \<and> \<not> init then 1 else 0)
            + (if new_status = QUERY_FORWARDED then 1 else 0)"
    by (simp add: ot6_def ot5_def ot4_def ot3_def ot2_def ot1_def)
  have "queries s' = (queries s)[queryID := (queries s ! queryID)\<lparr>q_status := new_status\<rparr>]"
    "length (counters_status s') = QUERY_STATUS_MAX"
    "sum_list (counters_status s') = sum_list (counters_status s) + (if init then 1 else 0)"
    "length (overTime s') = length (overTime s)"
    "\<forall>b. b \<noteq> ?t \<longrightarrow> overTime s' ! b = overTime s ! b"
    "overTime s' ! ?t = ot6"
    using t by (simp_all add: s'_def l2 s2)
  with call b c f show ?thesis by simp
qed

lemma live_wf_iff:
  "live_wf s live
   = (length (counters_status s) = QUERY_STATUS_MAX \<and> distinct live
      \<and> (\<forall>q\<in>set live. q < length (queries s) \<and> q_status (queries s ! q) < QUERY_STATUS_MAX))"
  by (simp add: live_wf_def list_all_iff)

lemma counters_consistent_iff:
  "counters_consistent g s live
   = (sum_list (counters_status s) = int (length live)
      \<and> (\<forall>b<OVERTIME_SLOTS s.
            ot_blocked (overTime s ! b) = count_live g s live b is_blocked
            \<and> ot_cached (overTime s ! b) = count_live g s live b is_cached
            \<and> ot_forwarded (overTime s ! b)
                = count_live g s live b (\<lambda>status. status = QUERY_FORWARDED)))"
  by (auto simp: counters_consistent_def list_all_iff)

lemma count_live_Cons:
  "count_live g s (q # live) b P
   = (if g (q_timestamp (queries s ! q)) = b \<and> P (q_status (queries s ! q)) then 1 else 0)
     + count_live g s live b P"
  by (simp add: count_live_def)

lemma count_live_other:
  assumes "queries s' = (queries s)[q := x]" and "q \<notin> set live"
  shows "count_live g s' live b P = count_live g s live b P"
proof -
  have "filter (\<lambda>y. g (q_timestamp (queries s' ! y)) = b \<and> P (q_status (queries s' ! y))) live
      = filter (\<lambda>y. g (q_timestamp (queries s ! y)) = b \<and> P (q_status (queries s ! y))) live"
    by (rule filter_cong) (use assms in \<open>auto simp: nth_list_update_any\<close>)
  then show ?thesis by (simp add: count_live_def)
qed

lemma count_live_updated:
  assumes upd: "queries s' = (queries s)[q := (queries s ! q)\<lparr>q_status := st\<rparr>]"
    and q: "q < length (queries s)"
  shows "distinct live \<Longrightarrow> q \<in> set live \<Longrightarrow>
    count_live g s' live b P
    = count_live g s live b P
      - (if g (q_timestamp (queries s ! q)) = b \<and> P (q_status (queries s ! q)) then 1 else 0)
      + (if g (q_timestamp (queries s ! q)) = b \<and> P st then 1 else 0)"
proof (induction live)
  case Nil
  then show ?case by simp
next
  case (Cons x live)
  show ?case
  proof (cases "x = q")
    case True
    with Cons.prems have "q \<notin> set live" by simp
    from count_live_other [OF upd this] True q upd show ?thesis
      by (simp add: count_live_Cons)
  next
    case False
    with Cons.prems have "distinct live" "q \<in> set live" by simp_all
    from Cons.IH [OF this] False upd show ?thesis
      by (simp add: count_live_Cons nth_list_update_any)
  qed
qed

lemma set_status_init_step:
  assumes wf: "live_wf s live" and cons: "counters_consistent g s live"
    and q: "q < length (queries s)" and st: "st < QUERY_STATUS_MAX"
    and t: "g (q_timestamp (queries s ! q)) < OVERTIME_SLOTS s"
    and fresh: "q \<notin> set live"
  shows "\<exists>s'. query_set_status g q st True s = Some s'
     \<and> live_wf s' (q # live) \<and> counters_consistent g s' (q # live)
     \<and> length (queries s') = length (queries s)
     \<and> map q_timestamp (queries s') = map q_timestamp (queries s)
     \<and> OVERTIME_SLOTS s' = OVERTIME_SLOTS s"
proof -
  let ?t = "g (q_timestamp (queries s ! q))"
  from wf have len: "length (counters_status s) = QUERY_STATUS_MAX" and d: "distinct live"
    and lv: "\<forall>x\<in>set live. x < length (queries s) \<and> q_status (queries s ! x) < QUERY_STATUS_MAX"
    by (simp_all add: live_wf_iff)
  from t have t': "?t < length (overTime s)" by (simp add: OVERTIME_SLOTS_def)
  from query_set_status_effect [where g = g and queryID = q and new_status = st
      and init = True and s = s] q st len t'
  obtain s' where call: "query_set_status g q st True s = Some s'"
    and qs: "queries s' = (queries s)[q := (queries s ! q)\<lparr>q_status := st\<rparr>]"
    and len': "length (counters_status s') = QUERY_STATUS_MAX"
    and sum': "sum_list (counters_status s') = sum_list (counters_status s) + 1"
    and ol: "length (overTime s') = length (overTime s)"
    and oo: "\<forall>b. b \<noteq> ?t \<longrightarrow> overTime s' ! b = overTime s ! b"
    and ob: "ot_blocked (overTime s' ! ?t)
               = ot_blocked (overTime s ! ?t) + (if is_blocked st then 1 else 0)"
    and oc: "ot_cached (overTime s' ! ?t)
               = ot_cached (overTime s ! ?t) + (if is_cached st then 1 else 0)"
    and "of": "ot_forwarded (overTime s' ! ?t)
               = ot_forwarded (overTime s ! ?t) + (if st = QUERY_FORWARDED then 1 else 0)"
    by auto
  have ts: "map q_timestamp (queries s') = map q_timestamp (queries s)"
    using q by (simp add: qs map_update list_update_same_conv)
  have qn: "queries s' ! q = (queries s ! q)\<lparr>q_status := st\<rparr>"
    using q by (simp add: qs)
  have wf': "live_wf s' (q # live)"
    using len' d fresh lv q st by (auto simp: live_wf_iff qs nth_list_update_any)
  have other: "\<And>b P. count_live g s' live b P = count_live g s live b P"
    by (rule count_live_other [OF qs fresh])
  have cons': "counters_consistent g s' (q # live)"
    unfolding counters_consistent_iff
  proof (intro conjI allI impI)
    show "sum_list (counters_status s') = int (length (q # live))"
      using cons sum' by (simp add: counters_consistent_iff)
  next
    fix b assume "b < OVERTIME_SLOTS s'"
    then have b: "b < OVERTIME_SLOTS s" by (simp add: OVERTIME_SLOTS_def ol)
    with cons have old:
      "ot_blocked (overTime s ! b) = count_live g s live b is_blocked"
      "ot_cached (overTime s ! b) = count_live g s live b is_cached"
      "ot_forwarded (overTime s ! b) = count_live g s live b (\<lambda>status. status = QUERY_FORWARDED)"
      by (simp_all add: counters_consistent_iff)
    show "ot_blocked (overTime s' ! b) = count_live g s' (q # live) b is_blocked"
      using old(1) ob oo by (cases "b = ?t") (simp_all add: count_live_Cons other qn)
    show "ot_cached (overTime s' ! b) = count_live g s' (q # live) b is_cached"
      using old(2) oc oo by (cases "b = ?t") (simp_all add: count_live_Cons other qn)
    show "ot_forwarded (overTime s' ! b)
          = count_live g s' (q # live) b (\<lambda>status. status = QUERY_FORWARDED)"
      using old(3) "of" oo by (cases "b = ?t") (simp_all add: count_live_Cons other qn)
  qed
  from call wf' cons' ts ol show ?thesis
    by (simp add: qs OVERTIME_SLOTS_def)
qed

lemma set_status_transition_step:
  assumes wf: "live_wf s live" and cons: "counters_consistent g s live"
    and q: "q < length (queries s)" and st: "st < QUERY_STATUS_MAX"
    and t: "g (q_timestamp (queries s ! q)) < OVERTIME_SLOTS s"
    and member: "q \<in> set live"
  shows "\<exists>s'. query_set_status g q st False s = Some s'
     \<and> live_wf s' live \<and> counters_consistent g s' live
     \<and> length (queries s') = length (queries s)
     \<and> map q_timestamp (queries s') = map q_timestamp (queries s)
     \<and> OVERTIME_SLOTS s' = OVERTIME_SLOTS s"
proof (cases "q_status (queries s ! q) = st")
  case True
  from query_set_status_unchanged [OF q True] wf cons show ?thesis by simp
next
  case False
  let ?t = "g (q_timestamp (queries s ! q))"
  let ?old = "q_status (queries s ! q)"
  from wf have len: "length (counters_status s) = QUERY_STATUS_MAX" and d: "distinct live"
    and lv: "\<forall>x\<in>set live. x < length (queries s) \<and> q_status (queries s ! x) < QUERY_STATUS_MAX"
    by (simp_all add: live_wf_iff)
  from lv member have old: "?old < QUERY_STATUS_MAX" by simp
  from t have t': "?t < length (overTime s)" by (simp add: OVERTIME_SLOTS_def)
  from query_set_status_effect [where g = g and queryID = q and new_status = st
      and init = False and s = s] q st len t' old False
  obtain s' where call: "query_set_status g q st False s = Some s'"
    and qs: "queries s' = (queries s)[q := (queries s ! q)\<lparr>q_status := st\<rparr>]"
    and len': "length (counters_status s') = QUERY_STATUS_MAX"
    and sum': "sum_list (counters_status s') = sum_list (counters_status s)"
    and ol: "length (overTime s') = length (overTime s)"
    and oo: "\<forall>b. b \<noteq> ?t \<longrightarrow> overTime s' ! b = overTime s ! b"
    and ob: "ot_blocked (overTime s' ! ?t)
               = ot_blocked (overTime s ! ?t) - (if is_blocked ?old then 1 else 0)
                 + (if is_blocked st then 1 else 0)"
    and oc: "ot_cached (overTime s' ! ?t)
               = ot_cached (overTime s ! ?t) - (if is_cached ?old then 1 else 0)
                 + (if is_cached st then 1 else 0)"
    and "of": "ot_forwarded (overTime s' ! ?t)
               = ot_forwarded (overTime s ! ?t) - (if ?old = QUERY_FORWARDED then 1 else 0)
                 + (if st = QUERY_FORWARDED then 1 else 0)"
    by auto
  have ts: "map q_timestamp (queries s') = map q_timestamp (queries s)"
    using q by (simp add: qs map_update list_update_same_conv)
  have wf': "live_wf s' live"
    using len' d lv st by (auto simp: live_wf_iff qs nth_list_update_any)
  note upd = count_live_updated [OF qs q d member, where g = g]
  have cons': "counters_consistent g s' live"
    unfolding counters_consistent_iff
  proof (intro conjI allI impI)
    show "sum_list (counters_status s') = int (length live)"
      using cons sum' by (simp add: counters_consistent_iff)
  next
    fix b assume "b < OVERTIME_SLOTS s'"
    then have b: "b < OVERTIME_SLOTS s" by (simp add: OVERTIME_SLOTS_def ol)
    with cons have old:
      "ot_blocked (overTime s ! b) = count_live g s live b is_blocked"
      "ot_cached (overTime s ! b) = count_live g s live b is_cached"
      "ot_forwarded (overTime s ! b) = count_live g s live b (\<lambda>status. status = QUERY_FORWARDED)"
      by (simp_all add: counters_consistent_iff)
    show "ot_blocked (overTime s' ! b) = count_live g s' live b is_blocked"
      using old(1) ob oo upd [of b is_blocked] by (cases "b = ?t") simp_all
    show "ot_cached (overTime s' ! b) = count_live g s' live b is_cached"
      using old(2) oc oo upd [of b is_cached] by (cases "b = ?t") simp_all
    show "ot_forwarded (overTime s' ! b)
          = count_live g s' live b (\<lambda>status. status = QUERY_FORWARDED)"
      using old(3) "of" oo upd [of b "\<lambda>status. status = QUERY_FORWARDED"]
      by (cases "b = ?t") simp_all
  qed
  from call wf' cons' ts ol show ?thesis
    by (simp add: qs OVERTIME_SLOTS_def)
qed

lemma calls_ok_same_queries:
  assumes "length (queries s') = length (queries s)"
    and "map q_timestamp (queries s') = map q_timestamp (queries s)"
    and "OVERTIME_SLOTS s' = OVERTIME_SLOTS s"
  shows "calls_ok g s' live cs = calls_ok g s live cs"
proof (induction cs arbitrary: live)
  case Nil
  then show ?case by simp
next
  case (Cons call cs)
  obtain q st init where call: "call = (q, st, init)" by (cases call)
  have "q < length (queries s) \<Longrightarrow> q_timestamp (queries s' ! q) = q_timestamp (queries s ! q)"
    using assms(1,2) by (metis nth_map)
  with Cons.IH assms(1,3) show ?case
    by (auto simp: call)
qed

lemma run_set_status_consistent:
  "live_wf s live \<Longrightarrow> counters_consistent g s live \<Longrightarrow> calls_ok g s live cs
   \<Longrightarrow> \<exists>s'. run_set_status g cs s = Some s'
          \<and> live_wf s' (live_after live cs) \<and> counters_consistent g s' (live_after live cs)"
proof (induction cs arbitrary: s live)
  case Nil
  then show ?case by simp
next
  case (Cons call cs)
  obtain q st init where call: "call = (q, st, init)" by (cases call)
  let ?live' = "if init then q # live else live"
  from Cons.prems(3) have q: "q < length (queries s)" and st: "st < QUERY_STATUS_MAX"
    and t: "g (q_timestamp (queries s ! q)) < OVERTIME_SLOTS s"
    and mem: "if init then q \<notin> set live else q \<in> set live"
    and rest: "calls_ok g s ?live' cs"
    by (simp_all add: call)
  have "\<exists>s1. query_set_status g q st init s = Some s1
     \<and> live_wf s1 ?live' \<and> counters_consistent g s1 ?live'
     \<and> length (queries s1) = length (queries s)
     \<and> map q_timestamp (queries s1) = map q_timestamp (queries s)
     \<and> OVERTIME_SLOTS s1 = OVERTIME_SLOTS s"
  proof (cases init)
    case True
    with mem have "q \<notin> set live" by simp
    from set_status_init_step [OF Cons.prems(1,2) q st t this] True show ?thesis by simp
  next
    case False
    with mem have "q \<in> set live" by simp
    from set_status_transition_step [OF Cons.prems(1,2) q st t this] False show ?thesis by simp
  qed
  then obtain s1 where step: "query_set_status g q st init s = Some s1"
    and wf1: "live_wf s1 ?live'" and c1: "counters_consistent g s1 ?live'"
    and fr: "length (queries s1) = length (queries s)"
      "map q_timestamp (queries s1) = map q_timestamp (queries s)"
      "OVERTIME_SLOTS s1 = OVERTIME_SLOTS s"
    by blast
  from rest have "calls_ok g s1 ?live' cs"
    by (simp only: calls_ok_same_queries [OF fr])
  from Cons.IH [OF wf1 c1 this] step show ?case
    by (simp add: call)
qed

lemma fresh_state_consistent:
  "live_wf (fresh_state cap slots) [] \<and> counters_consistent g (fresh_state cap slots) []"
  by (simp add: live_wf_iff counters_consistent_iff fresh_state_def OVERTIME_SLOTS_def
      zero_overTime_def count_live_def sum_list_replicate)

text \<open>
  Claim C1. Start from a state whose counters are consistent with its live queries (the
  start-up state, with no live query, is one). After every well-formed sequence of
  \<^verbatim>\<open>_query_set_status\<close> calls (initial assignments and transitions with valid
  statuses, each query receiving its initial assignment before its transitions) every call
  is defined, the histogram sums to the number of live queries, and in every time bucket
  the blocked, cached and forwarded sub-counts are the numbers of live queries of that
  bucket whose current status is blocked, is cached, or equals \<^verbatim>\<open>QUERY_FORWARDED\<close>.
\<close>

theorem C1_counters_consistent:
  assumes "live_wf s live" and "counters_consistent g s live" and "calls_ok g s live cs"
  shows "\<exists>s'. run_set_status g cs s = Some s'
     \<and> sum_list (counters_status s') = int (length (live_after live cs))
     \<and> (\<forall>b<OVERTIME_SLOTS s'.
           ot_blocked (overTime s' ! b) = count_live g s' (live_after live cs) b is_blocked
           \<and> ot_cached (overTime s' ! b) = count_live g s' (live_after live cs) b is_cached
           \<and> ot_forwarded (overTime s' ! b)
               = count_live g s' (live_after live cs) b (\<lambda>status. status = QUERY_FORWARDED))
     \<and> live_wf s' (live_after live cs)"
  using run_set_status_consistent [OF assms]
  by (auto simp: counters_consistent_iff)

theorem C1_witness:
  "live_wf ex_query_state [] \<and> counters_consistent ex_getOverTimeID ex_query_state []
   \<and> calls_ok ex_getOverTimeID ex_query_state [] ex_calls
   \<and> (\<exists>s'. run_set_status ex_getOverTimeID ex_calls ex_query_state = Some s'
         \<and> sum_list (counters_status s') = 2
         \<and> ot_cached (overTime s' ! 0)
             = count_live ex_getOverTimeID s' [1, 0] 0 is_cached
         \<and> ot_forwarded (overTime s' ! 1)
             = count_live ex_getOverTimeID s' [1, 0] 1 (\<lambda>status. status = QUERY_FORWARDED))"
proof -
  have h1: "live_wf ex_query_state []"
    and h2: "counters_consistent ex_getOverTimeID ex_query_state []"
    and h3: "calls_ok ex_getOverTimeID ex_query_state [] ex_calls"
    by code_simp+
  have l: "live_after [] ex_calls = [1, 0]"
    by (simp add: ex_calls_def)
  from C1_counters_consistent [OF h1 h2 h3]
  obtain s' where r: "run_set_status ex_getOverTimeID ex_calls ex_query_state = Some s'"
    and s: "sum_list (counters_status s') = int (length (live_after [] ex_calls))"
    and b: "\<forall>b<OVERTIME_SLOTS s'.
           ot_blocked (overTime s' ! b) = count_live ex_getOverTimeID s' (live_after [] ex_calls) b is_blocked
           \<and> ot_cached (overTime s' ! b) = count_live ex_getOverTimeID s' (live_after [] ex_calls) b is_cached
           \<and> ot_forwarded (overTime s' ! b)
               = count_live ex_getOverTimeID s' (live_after [] ex_calls) b (\<lambda>status. status = QUERY_FORWARDED)"
    by blast
  have "run_set_status ex_getOverTimeID ex_calls ex_query_state \<noteq> None
        \<and> OVERTIME_SLOTS (the (run_set_status ex_getOverTimeID ex_calls ex_query_state)) = 2"
    by code_simp
  with r have n: "OVERTIME_SLOTS s' = 2" by simp
  from b n have "ot_cached (overTime s' ! 0) = count_live ex_getOverTimeID s' [1, 0] 0 is_cached"
    "ot_forwarded (overTime s' ! 1)
       = count_live ex_getOverTimeID s' [1, 0] 1 (\<lambda>status. status = QUERY_FORWARDED)"
    by (simp_all add: l)
  with h1 h2 h3 r s l show ?thesis by simp
qed

lemma example_run_values:
  "map q_status (queries (the (run_set_status ex_getOverTimeID ex_calls ex_query_state))) = [3, 2]
   \<and> map ot_cached (overTime (the (run_set_status ex_getOverTimeID ex_calls ex_query_state))) = [1, 0]
   \<and> map ot_forwarded (overTime (the (run_set_status ex_getOverTimeID ex_calls ex_query_state))) = [0, 1]
   \<and> map ot_blocked (overTime (the (run_set_status ex_getOverTimeID ex_calls ex_query_state))) = [0, 0]"
  by code_simp

end
